theory Spec2Isabelle
  imports Complex_Main "HOL-Library.Log_Nat" "HOL-Library.Multiset"
begin

section \<open>SafeRoom backend: the MQTT to MongoDB bridge and its REST queries\<close>

text \<open>
  The development embeds \<^verbatim>\<open>backend/mqtt_to_mongo.py\<close>: the MQTT callback
  \<^verbatim>\<open>on_message\<close>, which stamps and stores every decoded message, and the Flask routes
  \<^verbatim>\<open>get_sensors\<close>, \<^verbatim>\<open>get_latest_sensor\<close>, \<^verbatim>\<open>get_alerts\<close>, \<^verbatim>\<open>get_status\<close> and
  \<^verbatim>\<open>get_stats\<close>, which read the three collections back.

  The broker, the document store and the Python runtime are outside the file. They enter the
  model through their documented behaviour: a collection is the list of its documents in
  natural (insertion) order, a query is a function of that list, an exception is a value of
  type \<open>exn\<close>, and the clock reading and the store's answer to a write are arguments.
\<close>

subsection \<open>Python and BSON values\<close>

text \<open>
  A Python \<^verbatim>\<open>float\<close> is an IEEE-754 binary64 number: a finite value is kept as the exact
  rational it denotes, next to the two infinities and NaN (all of which \<^verbatim>\<open>json.loads\<close>
  accepts). The sign of zero is not kept.
\<close>

datatype float64 = Fin rat | PosInf | NegInf | NaN

text \<open>
  The values a document field can hold: what \<^verbatim>\<open>json.loads\<close> produces, plus the
  \<^verbatim>\<open>datetime\<close> written by the listener and the \<^verbatim>\<open>ObjectId\<close> added by the driver.
  A \<^verbatim>\<open>dict\<close> is the list of its items in insertion order; a \<^verbatim>\<open>str\<close> is its UTF-8 bytes.
  An instant is counted in milliseconds since 1970-01-01T00:00:00 UTC, the resolution of the
  store's date type; every \<^verbatim>\<open>datetime\<close> that reaches or leaves the store has that
  resolution.
\<close>

datatype pyval =
    PNone
  | PBool bool
  | PInt int
  | PFloat float64
  | PStr string
  | PList "pyval list"
  | PDict "(string \<times> pyval) list"
  | PDatetime int
  | PObjectId nat

type_synonym doc = "(string \<times> pyval) list"

datatype exn =
    DecodeError
  | TypeError
  | KeyError
  | AttributeError
  | OverflowError
  | WriteError

subsection \<open>Dictionaries\<close>

text \<open>\<^verbatim>\<open>d[k] = v\<close>: an existing key keeps its place, a new key goes to the end.\<close>

primrec dict_setitem :: "string \<Rightarrow> 'v \<Rightarrow> (string \<times> 'v) list \<Rightarrow> (string \<times> 'v) list" where
  "dict_setitem k v [] = [(k, v)]"
| "dict_setitem k v (p # ps) = (if fst p = k then (k, v) # ps else p # dict_setitem k v ps)"

text \<open>\<^verbatim>\<open>d[k]\<close>, which raises \<^verbatim>\<open>KeyError\<close> on a missing key.\<close>

definition dict_getitem :: "(string \<times> 'v) list \<Rightarrow> string \<Rightarrow> exn + 'v" where
  "dict_getitem d k = (case map_of d k of None \<Rightarrow> Inl KeyError | Some v \<Rightarrow> Inr v)"

text \<open>Removal of a key, as the projection \<^verbatim>\<open>{'_id': 0}\<close> does.\<close>

definition dict_remove :: "string \<Rightarrow> (string \<times> 'v) list \<Rightarrow> (string \<times> 'v) list" where
  "dict_remove k d = filter (\<lambda>p. fst p \<noteq> k) d"

subsection \<open>Decoding a payload\<close>

text \<open>
  \<^verbatim>\<open>json.loads(msg.payload.decode())\<close> either raises (\<^verbatim>\<open>UnicodeDecodeError\<close>,
  \<^verbatim>\<open>JSONDecodeError\<close>) or returns the Python value of the JSON text. A message carries the
  JSON text in parsed form, \<open>None\<close> when the bytes are not UTF-8 or not JSON. A JSON object
  may repeat a member name; the decoder keeps the last value, at the place of the first.
  A JSON number with a fraction or an exponent becomes the nearest \<^verbatim>\<open>float\<close>;
  \<open>JInfinity True\<close> stands for \<^verbatim>\<open>-Infinity\<close>.
\<close>

datatype json =
    JNull
  | JBool bool
  | JInt int
  | JReal rat
  | JNaN
  | JInfinity bool
  | JStr string
  | JArr "json list"
  | JObj "(string \<times> json) list"

text \<open>Rounding of a rational to an integer, ties to the even neighbour.\<close>

definition round_half_even :: "rat \<Rightarrow> int" where
  "round_half_even x =
     (let f = \<lfloor>x\<rfloor>; d = x - of_int f
      in if d < 1 / 2 then f else if 1 / 2 < d then f + 1 else if even f then f else f + 1)"

definition pow2 :: "int \<Rightarrow> rat" where
  "pow2 e = (if 0 \<le> e then 2 ^ nat e else 1 / 2 ^ nat (- e))"

text \<open>The binary exponent of a positive rational: the \<open>e\<close> with \<open>2^e \<le> x < 2^(e+1)\<close>.\<close>

definition ilog2 :: "rat \<Rightarrow> int" where
  "ilog2 x = (if 1 \<le> x then bitlen \<lfloor>x\<rfloor> - 1 else - bitlen (\<lceil>1 / x\<rceil> - 1))"

text \<open>
  The binary64 number nearest to a rational (ties to even): 53 significant bits, exponents
  down to the subnormal spacing \<open>2^-1074\<close>, overflow to an infinity from \<open>2^1024\<close> on.
\<close>

definition to_double_pos :: "rat \<Rightarrow> float64" where
  "to_double_pos x =
     (let e = max (ilog2 x - 52) (- 1074); y = of_int (round_half_even (x / pow2 e)) * pow2 e
      in if pow2 1024 \<le> y then PosInf else Fin y)"

definition to_double :: "rat \<Rightarrow> float64" where
  "to_double x =
     (if x = 0 then Fin 0
      else if 0 < x then to_double_pos x
      else (case to_double_pos (- x) of Fin y \<Rightarrow> Fin (- y) | _ \<Rightarrow> NegInf))"

fun loads :: "json \<Rightarrow> pyval" where
  "loads JNull = PNone"
| "loads (JBool b) = PBool b"
| "loads (JInt i) = PInt i"
| "loads (JReal r) = PFloat (to_double r)"
| "loads JNaN = PFloat NaN"
| "loads (JInfinity neg) = PFloat (if neg then NegInf else PosInf)"
| "loads (JStr s) = PStr s"
| "loads (JArr xs) = PList (map loads xs)"
| "loads (JObj ps) = PDict (fold (\<lambda>(k, v) d. dict_setitem k (loads v) d) ps [])"

subsection \<open>Time\<close>

text \<open>
  \<^verbatim>\<open>datetime\<close> covers the years 1 to 9999, \<^verbatim>\<open>timedelta\<close> at most 999999999 days in
  either direction; both raise \<^verbatim>\<open>OverflowError\<close> outside.
\<close>

definition MIN_DATETIME :: int where
  "MIN_DATETIME = - 62135596800000"

definition MAX_DATETIME :: int where
  "MAX_DATETIME = 253402300799999"

text \<open>\<^verbatim>\<open>timedelta(hours=h)\<close>, in milliseconds.\<close>

definition timedelta_hours :: "int \<Rightarrow> exn + int" where
  "timedelta_hours h =
     (if h div 24 < - 999999999 \<or> 999999999 < h div 24 then Inl OverflowError
      else Inr (h * 3600000))"

text \<open>\<^verbatim>\<open>t - delta\<close> on a \<^verbatim>\<open>datetime\<close>.\<close>

definition datetime_sub :: "int \<Rightarrow> int \<Rightarrow> exn + int" where
  "datetime_sub t delta =
     (if t - delta < MIN_DATETIME \<or> MAX_DATETIME < t - delta then Inl OverflowError
      else Inr (t - delta))"

text \<open>\<^verbatim>\<open>since = datetime.utcnow() - timedelta(hours=hours)\<close>.\<close>

definition since_of :: "int \<Rightarrow> int \<Rightarrow> exn + int" where
  "since_of now hours =
     (case timedelta_hours hours of
        Inl e \<Rightarrow> Inl e
      | Inr delta \<Rightarrow> datetime_sub now delta)"

text \<open>
  \<^verbatim>\<open>datetime.isoformat()\<close>: \<^verbatim>\<open>YYYY-MM-DDTHH:MM:SS\<close>, followed by the six-digit
  fraction when it is not zero. The date comes from the day count by the proleptic
  Gregorian calendar.
\<close>

definition digit :: "int \<Rightarrow> char" where
  "digit n = char_of (48 + n mod 10)"

fun pad :: "nat \<Rightarrow> int \<Rightarrow> string" where
  "pad 0 n = []"
| "pad (Suc w) n = pad w (n div 10) @ [digit n]"

definition civil_from_days :: "int \<Rightarrow> int \<times> int \<times> int" where
  "civil_from_days days =
     (let z = days + 719468;
          era = z div 146097;
          doe = z - era * 146097;
          yoe = (doe - doe div 1460 + doe div 36524 - doe div 146096) div 365;
          doy = doe - (365 * yoe + yoe div 4 - yoe div 100);
          mp = (5 * doy + 2) div 153;
          d = doy - (153 * mp + 2) div 5 + 1;
          m = (if mp < 10 then mp + 3 else mp - 9);
          y = yoe + era * 400 + (if m \<le> 2 then 1 else 0)
      in (y, m, d))"

definition isoformat :: "int \<Rightarrow> string" where
  "isoformat t =
     (let (y, m, d) = civil_from_days (t div 86400000);
          r = t mod 86400000;
          ms = r mod 1000
      in pad 4 y @ ''-'' @ pad 2 m @ ''-'' @ pad 2 d @ ''T'' @ pad 2 (r div 3600000) @ '':''
         @ pad 2 (r div 60000 mod 60) @ '':'' @ pad 2 (r div 1000 mod 60)
         @ (if ms = 0 then [] else ''.'' @ pad 3 ms @ ''000''))"

subsection \<open>The store's order on values\<close>

text \<open>
  MongoDB compares two values first by the class of their types, in the order null, numbers,
  string, object, array, ObjectId, boolean, date, and then inside the class: numbers by
  value whatever their representation, with NaN below every number; strings by their bytes;
  objects and arrays member by member (class, then name, then value), the shorter one first
  when one is a prefix of the other.
\<close>

datatype ordering = Less | Equal | Greater

definition cmp :: "'a::linorder \<Rightarrow> 'a \<Rightarrow> ordering" where
  "cmp a b = (if a < b then Less else if b < a then Greater else Equal)"

fun canonical_type :: "pyval \<Rightarrow> nat" where
  "canonical_type PNone = 5"
| "canonical_type (PInt i) = 10"
| "canonical_type (PFloat x) = 10"
| "canonical_type (PStr s) = 15"
| "canonical_type (PDict d) = 20"
| "canonical_type (PList xs) = 25"
| "canonical_type (PObjectId n) = 35"
| "canonical_type (PBool b) = 40"
| "canonical_type (PDatetime t) = 45"

fun float_class :: "float64 \<Rightarrow> nat" where
  "float_class NaN = 0"
| "float_class NegInf = 1"
| "float_class (Fin x) = 2"
| "float_class PosInf = 3"

fun cmp_float :: "float64 \<Rightarrow> float64 \<Rightarrow> ordering" where
  "cmp_float (Fin x) (Fin y) = cmp x y"
| "cmp_float a b = cmp (float_class a) (float_class b)"

fun cmp_str :: "string \<Rightarrow> string \<Rightarrow> ordering" where
  "cmp_str [] [] = Equal"
| "cmp_str [] (b # bs) = Less"
| "cmp_str (a # as) [] = Greater"
| "cmp_str (a # as) (b # bs) =
     (if a = b then cmp_str as bs else cmp (of_char a :: nat) (of_char b))"

text \<open>Values of one class that hold no other values.\<close>

fun cmp_scalar :: "pyval \<Rightarrow> pyval \<Rightarrow> ordering" where
  "cmp_scalar (PInt i) (PInt j) = cmp i j"
| "cmp_scalar (PInt i) (PFloat y) = cmp_float (Fin (of_int i)) y"
| "cmp_scalar (PFloat x) (PInt j) = cmp_float x (Fin (of_int j))"
| "cmp_scalar (PFloat x) (PFloat y) = cmp_float x y"
| "cmp_scalar (PStr s) (PStr t) = cmp_str s t"
| "cmp_scalar (PObjectId m) (PObjectId n) = cmp m n"
| "cmp_scalar (PBool a) (PBool b) = cmp a b"
| "cmp_scalar (PDatetime s) (PDatetime t) = cmp s t"
| "cmp_scalar a b = Equal"

text \<open>The first difference decides.\<close>

definition and_then :: "ordering \<Rightarrow> ordering \<Rightarrow> ordering" where
  "and_then c d = (case c of Equal \<Rightarrow> d | _ \<Rightarrow> c)"

fun bson_cmp :: "pyval \<Rightarrow> pyval \<Rightarrow> ordering"
  and cmp_members :: "(string \<times> pyval) list \<Rightarrow> (string \<times> pyval) list \<Rightarrow> ordering"
  and cmp_elements :: "pyval list \<Rightarrow> pyval list \<Rightarrow> ordering" where
  "bson_cmp (PDict xs) (PDict ys) = cmp_members xs ys"
| "bson_cmp (PList xs) (PList ys) = cmp_elements xs ys"
| "bson_cmp a b = and_then (cmp (canonical_type a) (canonical_type b)) (cmp_scalar a b)"
| "cmp_members [] [] = Equal"
| "cmp_members [] (y # ys) = Less"
| "cmp_members (x # xs) [] = Greater"
| "cmp_members (x # xs) (y # ys) =
     and_then (cmp (canonical_type (snd x)) (canonical_type (snd y)))
       (and_then (cmp_str (fst x) (fst y))
         (and_then (bson_cmp (snd x) (snd y)) (cmp_members xs ys)))"
| "cmp_elements [] [] = Equal"
| "cmp_elements [] (y # ys) = Less"
| "cmp_elements (x # xs) [] = Greater"
| "cmp_elements (x # xs) (y # ys) =
     and_then (cmp (canonical_type x) (canonical_type y))
       (and_then (bson_cmp x y) (cmp_elements xs ys))"

subsection \<open>The collections\<close>

text \<open>
  The database \<^verbatim>\<open>db\<close> with its three collections, each the list of its documents in natural
  order, and the counter from which the driver draws the next \<^verbatim>\<open>ObjectId\<close>.
\<close>

record db =
  sensor_readings :: "doc list"
  status_logs :: "doc list"
  alerts :: "doc list"
  next_oid :: nat

definition empty_db :: db where
  "empty_db = \<lparr>sensor_readings = [], status_logs = [], alerts = [], next_oid = 0\<rparr>"

text \<open>
  The stored form of an inserted document: \<^verbatim>\<open>_id\<close> comes first, a fresh \<^verbatim>\<open>ObjectId\<close>
  unless the document brings its own.
\<close>

definition with_id :: "nat \<Rightarrow> doc \<Rightarrow> doc" where
  "with_id n d =
     (case map_of d ''_id'' of
        None \<Rightarrow> (''_id'', PObjectId n) # d
      | Some v \<Rightarrow> (''_id'', v) # dict_remove ''_id'' d)"

text \<open>
  \<^verbatim>\<open>collection.insert_one(document)\<close>. The write can fail: an integer beyond 64 bits, a
  repeated \<^verbatim>\<open>_id\<close>, an unreachable server. Whether the store takes the write is the
  argument \<open>accepted\<close>; a refused write raises and leaves the collection as it was.
\<close>

definition insert_one :: "bool \<Rightarrow> nat \<Rightarrow> doc list \<Rightarrow> doc \<Rightarrow> exn + doc list" where
  "insert_one accepted n coll d = (if accepted then Inr (coll @ [with_id n d]) else Inl WriteError)"

subsection \<open>The MQTT callback\<close>

definition TOPIC_SENSORS :: string where
  "TOPIC_SENSORS = ''room/sensors''"

definition TOPIC_STATUS :: string where
  "TOPIC_STATUS = ''room/status''"

definition TOPIC_ALERT :: string where
  "TOPIC_ALERT = ''room/alert''"

record mqtt_msg =
  topic :: string
  payload :: "json option"

text \<open>
  The body of the \<^verbatim>\<open>try\<close> block of \<^verbatim>\<open>on_message\<close>, for the clock reading \<open>now\<close>.
  Item assignment on a decoded value that is not a \<^verbatim>\<open>dict\<close> raises \<^verbatim>\<open>TypeError\<close>.
  The \<^verbatim>\<open>print\<close> calls are left out.
\<close>

definition on_message_try :: "int \<Rightarrow> bool \<Rightarrow> db \<Rightarrow> mqtt_msg \<Rightarrow> exn + db" where
  "on_message_try now accepted s msg =
     (case payload msg of
        None \<Rightarrow> Inl DecodeError
      | Some j \<Rightarrow>
          (case loads j of
             PDict d \<Rightarrow>
               (let p = dict_setitem ''timestamp'' (PDatetime now) d
                in if topic msg = TOPIC_SENSORS then
                     (case insert_one accepted (next_oid s) (sensor_readings s) p of
                        Inl e \<Rightarrow> Inl e
                      | Inr c \<Rightarrow> Inr (s\<lparr>sensor_readings := c, next_oid := Suc (next_oid s)\<rparr>))
                   else if topic msg = TOPIC_STATUS then
                     (case insert_one accepted (next_oid s) (status_logs s) p of
                        Inl e \<Rightarrow> Inl e
                      | Inr c \<Rightarrow> Inr (s\<lparr>status_logs := c, next_oid := Suc (next_oid s)\<rparr>))
                   else if topic msg = TOPIC_ALERT then
                     (case insert_one accepted (next_oid s) (alerts s) p of
                        Inl e \<Rightarrow> Inl e
                      | Inr c \<Rightarrow> Inr (s\<lparr>alerts := c, next_oid := Suc (next_oid s)\<rparr>))
                   else Inr s)
           | _ \<Rightarrow> Inl TypeError))"

text \<open>\<^verbatim>\<open>on_message\<close>: \<^verbatim>\<open>except Exception\<close> takes every exception of the body.\<close>

definition on_message :: "int \<Rightarrow> bool \<Rightarrow> db \<Rightarrow> mqtt_msg \<Rightarrow> db" where
  "on_message now accepted s msg =
     (case on_message_try now accepted s msg of
        Inl e \<Rightarrow> s
      | Inr s' \<Rightarrow> s')"

text \<open>
  One delivery by the broker: the message, the clock reading when it is handled and the
  store's answer to the write.
\<close>

record delivery =
  message :: mqtt_msg
  utcnow :: int
  write_ok :: bool

text \<open>
  \<^verbatim>\<open>run_mqtt\<close>: the client loop hands every delivery to the callback, in order.
\<close>

fun run_mqtt :: "db \<Rightarrow> delivery list \<Rightarrow> db" where
  "run_mqtt s [] = s"
| "run_mqtt s (e # es) = run_mqtt (on_message (utcnow e) (write_ok e) s (message e)) es"

text \<open>The states of the store that the listener alone can produce from an empty database.\<close>

inductive reachable :: "db \<Rightarrow> bool" where
  start: "reachable empty_db"
| step: "reachable s \<Longrightarrow> reachable (on_message now accepted s msg)"

subsection \<open>Filters, sorting and cursors\<close>

text \<open>
  The filter documents of the routes: \<^verbatim>\<open>{}\<close>, \<^verbatim>\<open>{'timestamp': {'$gte': since}}\<close> and
  \<^verbatim>\<open>{'timestamp': {'$gte': since}, 'type': t}\<close>. A comparison with a date holds for a
  date only, and an array field satisfies a condition when one of its elements does.
\<close>

datatype filter = Everything | Timestamp_gte int | Timestamp_gte_type int string

fun date_gte :: "int \<Rightarrow> pyval \<Rightarrow> bool" where
  "date_gte since (PDatetime t) = (since \<le> t)"
| "date_gte since v = False"

definition field_gte :: "string \<Rightarrow> int \<Rightarrow> doc \<Rightarrow> bool" where
  "field_gte f since d =
     (case map_of d f of
        None \<Rightarrow> False
      | Some (PList xs) \<Rightarrow> list_ex (date_gte since) xs
      | Some v \<Rightarrow> date_gte since v)"

definition field_eq_str :: "string \<Rightarrow> string \<Rightarrow> doc \<Rightarrow> bool" where
  "field_eq_str f x d =
     (case map_of d f of
        None \<Rightarrow> False
      | Some (PList xs) \<Rightarrow> list_ex (\<lambda>v. v = PStr x) xs
      | Some v \<Rightarrow> v = PStr x)"

fun matches :: "filter \<Rightarrow> doc \<Rightarrow> bool" where
  "matches Everything d = True"
| "matches (Timestamp_gte since) d = field_gte ''timestamp'' since d"
| "matches (Timestamp_gte_type since t) d =
     (field_gte ''timestamp'' since d \<and> field_eq_str ''type'' t d)"

text \<open>
  The key of a document in a descending sort on a field: the value itself, null for a
  missing field, the greatest element for an array; an empty array sorts below everything
  (\<open>None\<close>).
\<close>

definition bson_max :: "pyval \<Rightarrow> pyval \<Rightarrow> pyval" where
  "bson_max v m = (if bson_cmp v m = Greater then v else m)"

definition sort_key :: "string \<Rightarrow> doc \<Rightarrow> pyval option" where
  "sort_key f d =
     (case map_of d f of
        None \<Rightarrow> Some PNone
      | Some (PList []) \<Rightarrow> None
      | Some (PList (x # xs)) \<Rightarrow> Some (fold bson_max xs x)
      | Some v \<Rightarrow> Some v)"

fun key_cmp :: "pyval option \<Rightarrow> pyval option \<Rightarrow> ordering" where
  "key_cmp None None = Equal"
| "key_cmp None (Some b) = Less"
| "key_cmp (Some a) None = Greater"
| "key_cmp (Some a) (Some b) = bson_cmp a b"

text \<open>
  \<^verbatim>\<open>.sort(f, -1)\<close>: greatest key first. The store does not say in which order documents
  with equal keys come; here they keep their order in the collection, and every order the
  store may choose is the result for a collection that lists them in that order.
\<close>

fun insert_desc :: "string \<Rightarrow> doc \<Rightarrow> doc list \<Rightarrow> doc list" where
  "insert_desc f x [] = [x]"
| "insert_desc f x (y # ys) =
     (if key_cmp (sort_key f x) (sort_key f y) = Less then y # insert_desc f x ys
      else x # y # ys)"

fun sort_desc :: "string \<Rightarrow> doc list \<Rightarrow> doc list" where
  "sort_desc f [] = []"
| "sort_desc f (x # xs) = insert_desc f x (sort_desc f xs)"

text \<open>
  \<^verbatim>\<open>.limit(n)\<close>: zero means no limit; a negative \<open>n\<close> asks for at most \<open>-n\<close> documents in
  a single batch, which holds 101 documents unless a batch size is set. The number is sent
  as a 64-bit integer at most.
\<close>

definition FIRST_BATCH :: nat where
  "FIRST_BATCH = 101"

definition limit_cursor :: "int \<Rightarrow> 'a list \<Rightarrow> exn + 'a list" where
  "limit_cursor n xs =
     (if 2 ^ 63 \<le> \<bar>n\<bar> then Inl OverflowError
      else if n = 0 then Inr xs
      else if 0 < n then Inr (take (nat n) xs)
      else Inr (take (min (nat (- n)) FIRST_BATCH) xs))"

text \<open>
  \<^verbatim>\<open>list(coll.find(flt, {'_id': 0}).sort('timestamp', -1).limit(n))\<close>.
\<close>

definition find_sorted :: "doc list \<Rightarrow> filter \<Rightarrow> int \<Rightarrow> exn + doc list" where
  "find_sorted coll flt n =
     (case limit_cursor n (sort_desc ''timestamp'' (filter (matches flt) coll)) of
        Inl e \<Rightarrow> Inl e
      | Inr ds \<Rightarrow> Inr (map (dict_remove ''_id'') ds))"

text \<open>\<^verbatim>\<open>coll.find_one({}, {'_id': 0}, sort=[('timestamp', -1)])\<close>.\<close>

definition find_one :: "doc list \<Rightarrow> doc option" where
  "find_one coll =
     (case sort_desc ''timestamp'' (filter (matches Everything) coll) of
        [] \<Rightarrow> None
      | d # ds \<Rightarrow> Some (dict_remove ''_id'' d))"

subsection \<open>The list and latest routes\<close>

text \<open>
  \<^verbatim>\<open>request.args.get(name, default, type=int)\<close>: the argument is \<open>None\<close> when the
  parameter is absent or is not an integer.
\<close>

definition args_get :: "int option \<Rightarrow> int \<Rightarrow> int" where
  "args_get arg dflt = (case arg of None \<Rightarrow> dflt | Some v \<Rightarrow> v)"

text \<open>
  \<^verbatim>\<open>r['timestamp'] = r['timestamp'].isoformat()\<close>: \<^verbatim>\<open>KeyError\<close> without the key,
  \<^verbatim>\<open>AttributeError\<close> when the value is not a \<^verbatim>\<open>datetime\<close>.
\<close>

definition isoformat_timestamp :: "doc \<Rightarrow> exn + doc" where
  "isoformat_timestamp r =
     (case dict_getitem r ''timestamp'' of
        Inl e \<Rightarrow> Inl e
      | Inr (PDatetime t) \<Rightarrow> Inr (dict_setitem ''timestamp'' (PStr (isoformat t)) r)
      | Inr v \<Rightarrow> Inl AttributeError)"

text \<open>The \<^verbatim>\<open>for\<close> loop over the documents read; the first exception ends it.\<close>

fun isoformat_each :: "doc list \<Rightarrow> exn + doc list" where
  "isoformat_each [] = Inr []"
| "isoformat_each (r # rs) =
     (case isoformat_timestamp r of
        Inl e \<Rightarrow> Inl e
      | Inr r' \<Rightarrow> (case isoformat_each rs of Inl e \<Rightarrow> Inl e | Inr rs' \<Rightarrow> Inr (r' # rs')))"

text \<open>
  \<^verbatim>\<open>jsonify\<close> takes what \<^verbatim>\<open>json.loads\<close> gives and dates, and raises \<^verbatim>\<open>TypeError\<close> on an
  \<^verbatim>\<open>ObjectId\<close>. The response is kept as the value handed over.
\<close>

fun serializable :: "pyval \<Rightarrow> bool" where
  "serializable (PObjectId n) = False"
| "serializable (PList xs) = list_all serializable xs"
| "serializable (PDict d) = list_all (\<lambda>p. serializable (snd p)) d"
| "serializable v = True"

definition jsonify :: "pyval \<Rightarrow> exn + pyval" where
  "jsonify v = (if serializable v then Inr v else Inl TypeError)"

definition get_sensors :: "int \<Rightarrow> db \<Rightarrow> int option \<Rightarrow> int option \<Rightarrow> exn + pyval" where
  "get_sensors now s hours_arg limit_arg =
     (let hours = args_get hours_arg 24;
          limit = args_get limit_arg 100
      in case since_of now hours of
           Inl e \<Rightarrow> Inl e
         | Inr since \<Rightarrow>
             (case find_sorted (sensor_readings s) (Timestamp_gte since) limit of
                Inl e \<Rightarrow> Inl e
              | Inr readings \<Rightarrow>
                  (case isoformat_each readings of
                     Inl e \<Rightarrow> Inl e
                   | Inr rs \<Rightarrow> jsonify (PList (map PDict rs)))))"

definition get_alerts :: "int \<Rightarrow> db \<Rightarrow> int option \<Rightarrow> int option \<Rightarrow> exn + pyval" where
  "get_alerts now s hours_arg limit_arg =
     (let hours = args_get hours_arg 24;
          limit = args_get limit_arg 50
      in case since_of now hours of
           Inl e \<Rightarrow> Inl e
         | Inr since \<Rightarrow>
             (case find_sorted (alerts s) (Timestamp_gte since) limit of
                Inl e \<Rightarrow> Inl e
              | Inr alert_list \<Rightarrow>
                  (case isoformat_each alert_list of
                     Inl e \<Rightarrow> Inl e
                   | Inr as \<Rightarrow> jsonify (PList (map PDict as)))))"

text \<open>An empty \<^verbatim>\<open>dict\<close> is false in \<^verbatim>\<open>if reading:\<close>, like \<^verbatim>\<open>None\<close>.\<close>

definition get_latest_sensor :: "db \<Rightarrow> exn + pyval" where
  "get_latest_sensor s =
     (case find_one (sensor_readings s) of
        None \<Rightarrow> jsonify (PDict [])
      | Some reading \<Rightarrow>
          (if reading = [] then jsonify (PDict [])
           else (case isoformat_timestamp reading of
                   Inl e \<Rightarrow> Inl e
                 | Inr r \<Rightarrow> jsonify (PDict r))))"

definition get_status :: "db \<Rightarrow> exn + pyval" where
  "get_status s =
     (case find_one (status_logs s) of
        None \<Rightarrow> jsonify (PDict [])
      | Some status \<Rightarrow>
          (if status = [] then jsonify (PDict [])
           else (case isoformat_timestamp status of
                   Inl e \<Rightarrow> Inl e
                 | Inr r \<Rightarrow> jsonify (PDict r))))"

subsection \<open>The statistics route\<close>

datatype collection_name = Sensor_readings | Status_logs | Alerts

fun collection :: "db \<Rightarrow> collection_name \<Rightarrow> doc list" where
  "collection s Sensor_readings = sensor_readings s"
| "collection s Status_logs = status_logs s"
| "collection s Alerts = alerts s"

text \<open>
  The aggregation pipeline of \<^verbatim>\<open>get_stats\<close> has two stages, \<^verbatim>\<open>$match\<close> and a
  \<^verbatim>\<open>$group\<close> with the constant \<^verbatim>\<open>_id\<close> \<^verbatim>\<open>None\<close>, whose output fields are \<^verbatim>\<open>$avg\<close> and
  \<^verbatim>\<open>$max\<close> accumulators over a field.
\<close>

datatype accumulator = Avg string | Max string

datatype stage = Match filter | Group "(string \<times> accumulator) list"

text \<open>A read of the store, as issued by a route.\<close>

datatype store_call =
    Count_documents collection_name filter
  | Aggregate collection_name "stage list"

text \<open>
  The state of an accumulator while the group is built. \<^verbatim>\<open>$avg\<close> keeps the sum and the
  number of the numeric values seen, and whether a NaN, a positive or a negative infinity
  was among them; \<^verbatim>\<open>$max\<close> keeps the greatest value seen that is neither null nor missing.
\<close>

datatype acc_state =
    Avg_state string rat nat bool bool bool
  | Max_state string "pyval option"

fun acc_init :: "accumulator \<Rightarrow> acc_state" where
  "acc_init (Avg f) = Avg_state f 0 0 False False False"
| "acc_init (Max f) = Max_state f None"

fun acc_step :: "doc \<Rightarrow> acc_state \<Rightarrow> acc_state" where
  "acc_step d (Avg_state f sm n nan pinf ninf) =
     (case map_of d f of
        Some (PInt i) \<Rightarrow> Avg_state f (sm + of_int i) (Suc n) nan pinf ninf
      | Some (PFloat (Fin x)) \<Rightarrow> Avg_state f (sm + x) (Suc n) nan pinf ninf
      | Some (PFloat NaN) \<Rightarrow> Avg_state f sm (Suc n) True pinf ninf
      | Some (PFloat PosInf) \<Rightarrow> Avg_state f sm (Suc n) nan True ninf
      | Some (PFloat NegInf) \<Rightarrow> Avg_state f sm (Suc n) nan pinf True
      | _ \<Rightarrow> Avg_state f sm n nan pinf ninf)"
| "acc_step d (Max_state f m) =
     (case map_of d f of
        None \<Rightarrow> Max_state f m
      | Some PNone \<Rightarrow> Max_state f m
      | Some v \<Rightarrow> (case m of None \<Rightarrow> Max_state f (Some v) | Some w \<Rightarrow> Max_state f (Some (bson_max v w))))"

text \<open>
  The mean is taken of the exact sum and rounded once. (The server adds in extended
  precision and divides; for a single value both give that value.)
\<close>

definition mean :: "rat \<Rightarrow> nat \<Rightarrow> bool \<Rightarrow> bool \<Rightarrow> bool \<Rightarrow> pyval" where
  "mean sm n nan pinf ninf =
     (if n = 0 then PNone
      else if nan \<or> (pinf \<and> ninf) then PFloat NaN
      else if pinf then PFloat PosInf
      else if ninf then PFloat NegInf
      else PFloat (to_double (sm / of_nat n)))"

fun acc_final :: "acc_state \<Rightarrow> pyval" where
  "acc_final (Avg_state f sm n nan pinf ninf) = mean sm n nan pinf ninf"
| "acc_final (Max_state f m) = (case m of None \<Rightarrow> PNone | Some v \<Rightarrow> v)"

text \<open>
  \<^verbatim>\<open>$group\<close>: one pass over the documents, every accumulator taking each document in
  turn; no document, no group.
\<close>

definition group :: "(string \<times> accumulator) list \<Rightarrow> doc list \<Rightarrow> doc list" where
  "group accs docs =
     (if docs = [] then []
      else [(''_id'', PNone) #
            zip (map fst accs)
              (map acc_final (fold (\<lambda>d sts. map (acc_step d) sts) docs (map (\<lambda>a. acc_init (snd a)) accs)))])"

fun run_stage :: "stage \<Rightarrow> doc list \<Rightarrow> doc list" where
  "run_stage (Match flt) docs = filter (matches flt) docs"
| "run_stage (Group accs) docs = group accs docs"

text \<open>\<^verbatim>\<open>list(coll.aggregate(pipeline))\<close>, with the call it makes.\<close>

definition aggregate :: "db \<Rightarrow> collection_name \<Rightarrow> stage list \<Rightarrow> doc list \<times> store_call" where
  "aggregate s c pipeline = (fold run_stage pipeline (collection s c), Aggregate c pipeline)"

text \<open>\<^verbatim>\<open>coll.count_documents(flt)\<close>, with the call it makes.\<close>

definition count_documents :: "db \<Rightarrow> collection_name \<Rightarrow> filter \<Rightarrow> nat \<times> store_call" where
  "count_documents s c flt =
     (fold (\<lambda>d n. if matches flt d then Suc n else n) (collection s c) 0, Count_documents c flt)"

text \<open>
  \<^verbatim>\<open>round(x, ndigits)\<close>: a \<^verbatim>\<open>float\<close> is rounded correctly, half to even, on its exact
  value; an \<^verbatim>\<open>int\<close> (and a \<^verbatim>\<open>bool\<close>, as an \<^verbatim>\<open>int\<close>) is returned as it is for a
  non-negative \<open>ndigits\<close>; anything else raises \<^verbatim>\<open>TypeError\<close>.
\<close>

fun py_round :: "pyval \<Rightarrow> nat \<Rightarrow> exn + pyval" where
  "py_round (PFloat (Fin x)) ndigits =
     Inr (PFloat (to_double (of_int (round_half_even (x * 10 ^ ndigits)) / 10 ^ ndigits)))"
| "py_round (PFloat x) ndigits = Inr (PFloat x)"
| "py_round (PInt i) ndigits = Inr (PInt i)"
| "py_round (PBool b) ndigits = Inr (PInt (if b then 1 else 0))"
| "py_round v ndigits = Inl TypeError"

text \<open>\<^verbatim>\<open>round(agg_result[0][k], 1) if agg_result else 0\<close>.\<close>

definition rounded :: "doc list \<Rightarrow> string \<Rightarrow> exn + pyval" where
  "rounded agg_result k =
     (case agg_result of
        [] \<Rightarrow> Inr (PInt 0)
      | g # gs \<Rightarrow> (case dict_getitem g k of Inl e \<Rightarrow> Inl e | Inr v \<Rightarrow> py_round v 1))"

record stats =
  total_readings :: nat
  total_alerts :: nat
  burglar_alerts :: nat
  fire_alerts :: nat
  avg_temp :: pyval
  max_temp :: pyval
  avg_humidity :: pyval

definition pipeline :: "int \<Rightarrow> stage list" where
  "pipeline since =
     [Match (Timestamp_gte since),
      Group [(''avg_temp'', Avg ''temp''), (''max_temp'', Max ''temp''),
             (''avg_humidity'', Avg ''humidity'')]]"

text \<open>
  \<^verbatim>\<open>get_stats\<close>: the response, and the reads of the store made for it, in order.
\<close>

definition get_stats :: "int \<Rightarrow> db \<Rightarrow> int option \<Rightarrow> (exn + stats) \<times> store_call list" where
  "get_stats now s hours_arg =
     (let hours = args_get hours_arg 24
      in case since_of now hours of
           Inl e \<Rightarrow> (Inl e, [])
         | Inr since \<Rightarrow>
             (let (n_readings, c1) = count_documents s Sensor_readings (Timestamp_gte since);
                  (n_alerts, c2) = count_documents s Alerts (Timestamp_gte since);
                  (n_burglar, c3) = count_documents s Alerts (Timestamp_gte_type since ''burglar'');
                  (n_fire, c4) = count_documents s Alerts (Timestamp_gte_type since ''fire'');
                  (agg_result, c5) = aggregate s Sensor_readings (pipeline since);
                  calls = [c1, c2, c3, c4, c5]
              in case rounded agg_result ''avg_temp'' of
                   Inl e \<Rightarrow> (Inl e, calls)
                 | Inr a \<Rightarrow>
                     (case rounded agg_result ''max_temp'' of
                        Inl e \<Rightarrow> (Inl e, calls)
                      | Inr m \<Rightarrow>
                          (case rounded agg_result ''avg_humidity'' of
                             Inl e \<Rightarrow> (Inl e, calls)
                           | Inr h \<Rightarrow>
                               (Inr \<lparr>total_readings = n_readings, total_alerts = n_alerts,
                                     burglar_alerts = n_burglar, fire_alerts = n_fire,
                                     avg_temp = a, max_temp = m, avg_humidity = h\<rparr>,
                                calls)))))"

subsection \<open>Notions used in the statements\<close>

text \<open>The collection that \<^verbatim>\<open>on_message\<close> writes to for a topic.\<close>

definition destination :: "string \<Rightarrow> collection_name option" where
  "destination t =
     (if t = TOPIC_SENSORS then Some Sensor_readings
      else if t = TOPIC_STATUS then Some Status_logs
      else if t = TOPIC_ALERT then Some Alerts
      else None)"

text \<open>The instant under \<^verbatim>\<open>timestamp\<close>, when the document has one.\<close>

definition timestamp_of :: "doc \<Rightarrow> int option" where
  "timestamp_of d = (case map_of d ''timestamp'' of Some (PDatetime t) \<Rightarrow> Some t | _ \<Rightarrow> None)"

definition has_datetime :: "doc \<Rightarrow> bool" where
  "has_datetime d = (timestamp_of d \<noteq> None)"

text \<open>
  A record as the data model has it: stamped with an instant, and apart from \<^verbatim>\<open>_id\<close>
  made of values that JSON can carry.
\<close>

definition record_ok :: "doc \<Rightarrow> bool" where
  "record_ok d = (has_datetime d \<and> serializable (PDict (dict_remove ''_id'' d)))"

text \<open>What a list route answers for a stored record.\<close>

definition rendered :: "doc \<Rightarrow> int \<Rightarrow> doc" where
  "rendered d t = dict_setitem ''timestamp'' (PStr (isoformat t)) (dict_remove ''_id'' d)"

text \<open>The instant by which a document is placed in a descending sort, when it is one.\<close>

definition date_key :: "string \<Rightarrow> doc \<Rightarrow> int option" where
  "date_key f d = (case sort_key f d of Some (PDatetime t) \<Rightarrow> Some t | _ \<Rightarrow> None)"

definition newer_first :: "string \<Rightarrow> doc \<Rightarrow> doc \<Rightarrow> bool" where
  "newer_first f x y =
     (case (date_key f x, date_key f y) of (Some a, Some b) \<Rightarrow> b \<le> a | _ \<Rightarrow> False)"

text \<open>The records of a response that is a list, and the \<^verbatim>\<open>timestamp\<close> of one of them.\<close>

definition response_records :: "exn + pyval \<Rightarrow> pyval list" where
  "response_records r = (case r of Inr (PList xs) \<Rightarrow> xs | _ \<Rightarrow> [])"

fun timestamp_field :: "pyval \<Rightarrow> pyval option" where
  "timestamp_field (PDict d) = map_of d ''timestamp''"
| "timestamp_field v = None"

text \<open>
  The window of the glossary, from \<open>now - hours\<close> to \<open>now\<close>, both included.
\<close>

definition in_window :: "int \<Rightarrow> int \<Rightarrow> doc \<Rightarrow> bool" where
  "in_window lo hi d = (case timestamp_of d of None \<Rightarrow> False | Some t \<Rightarrow> lo \<le> t \<and> t \<le> hi)"

subsection \<open>Reference definitions of the statistics\<close>

text \<open>
  Each figure of the statistics on its own, by a scan of the documents for that figure
  alone: the number of documents that satisfy a filter, the mean of the numeric values of a
  field, and the greatest of its values that are neither null nor missing.
\<close>

definition reference_count :: "filter \<Rightarrow> doc list \<Rightarrow> nat" where
  "reference_count flt docs = length (filter (matches flt) docs)"

definition field_values :: "string \<Rightarrow> doc list \<Rightarrow> pyval list" where
  "field_values f docs = List.map_filter (\<lambda>d. map_of d f) docs"

fun number_of :: "pyval \<Rightarrow> float64 option" where
  "number_of (PInt i) = Some (Fin (of_int i))"
| "number_of (PFloat x) = Some x"
| "number_of v = None"

fun finite_part :: "float64 \<Rightarrow> rat" where
  "finite_part (Fin x) = x"
| "finite_part x = 0"

definition reference_avg :: "string \<Rightarrow> doc list \<Rightarrow> pyval" where
  "reference_avg f docs =
     (let xs = List.map_filter number_of (field_values f docs)
      in mean (sum_list (map finite_part xs)) (length xs)
           (NaN \<in> set xs) (PosInf \<in> set xs) (NegInf \<in> set xs))"

definition reference_max :: "string \<Rightarrow> doc list \<Rightarrow> pyval" where
  "reference_max f docs =
     (case filter (\<lambda>v. v \<noteq> PNone) (field_values f docs) of
        [] \<Rightarrow> PNone
      | v # vs \<Rightarrow> fold bson_max vs v)"

text \<open>The number that a finite numeric value denotes.\<close>

fun value_of :: "pyval \<Rightarrow> rat option" where
  "value_of (PInt i) = Some (of_int i)"
| "value_of (PFloat (Fin x)) = Some x"
| "value_of v = None"

text \<open>A figure of an empty window is 0, otherwise the reference value rounded.\<close>

definition round_unless_empty :: "doc list \<Rightarrow> pyval \<Rightarrow> exn + pyval" where
  "round_unless_empty docs v = (if docs = [] then Inr (PInt 0) else py_round v 1)"

definition reference_stats :: "int \<Rightarrow> db \<Rightarrow> exn + stats" where
  "reference_stats since s =
     (let w = filter (matches (Timestamp_gte since)) (sensor_readings s)
      in case round_unless_empty w (reference_avg ''temp'' w) of
           Inl e \<Rightarrow> Inl e
         | Inr a \<Rightarrow>
             (case round_unless_empty w (reference_max ''temp'' w) of
                Inl e \<Rightarrow> Inl e
              | Inr m \<Rightarrow>
                  (case round_unless_empty w (reference_avg ''humidity'' w) of
                     Inl e \<Rightarrow> Inl e
                   | Inr h \<Rightarrow>
                       Inr \<lparr>total_readings = reference_count (Timestamp_gte since) (sensor_readings s),
                            total_alerts = reference_count (Timestamp_gte since) (alerts s),
                            burglar_alerts =
                              reference_count (Timestamp_gte_type since ''burglar'') (alerts s),
                            fire_alerts =
                              reference_count (Timestamp_gte_type since ''fire'') (alerts s),
                            avg_temp = a, max_temp = m, avg_humidity = h\<rparr>)))"

subsection \<open>Sample messages\<close>

text \<open>
  A sensor reading \<^verbatim>\<open>{"temp": 21.35, "humidity": 55}\<close>, the same without the
  humidity, a reading that brings a
  \<^verbatim>\<open>timestamp\<close> of its own, a status, an alert, an alert that brings an \<^verbatim>\<open>_id\<close> of its
  own, and a payload that is not JSON.
\<close>

definition msg_reading :: mqtt_msg where
  "msg_reading =
     \<lparr>topic = ''room/sensors'',
      payload = Some (JObj [(''temp'', JReal (427 / 20)), (''humidity'', JInt 55)])\<rparr>"

definition msg_temp_only :: mqtt_msg where
  "msg_temp_only =
     \<lparr>topic = ''room/sensors'', payload = Some (JObj [(''temp'', JReal (427 / 20))])\<rparr>"

definition msg_stamped :: mqtt_msg where
  "msg_stamped =
     \<lparr>topic = ''room/sensors'',
      payload = Some (JObj [(''temp'', JInt 21), (''timestamp'', JStr ''2020-01-01'')])\<rparr>"

definition msg_status :: mqtt_msg where
  "msg_status =
     \<lparr>topic = ''room/status'',
      payload = Some (JObj [(''door'', JStr ''open''), (''occupant_count'', JInt 2)])\<rparr>"

definition msg_alert :: mqtt_msg where
  "msg_alert =
     \<lparr>topic = ''room/alert'',
      payload = Some (JObj [(''type'', JStr ''fire''), (''message'', JStr ''smoke detected'')])\<rparr>"

definition msg_keyed :: mqtt_msg where
  "msg_keyed =
     \<lparr>topic = ''room/alert'', payload = Some (JObj [(''_id'', JInt 7), (''type'', JStr ''fire'')])\<rparr>"

definition msg_garbage :: mqtt_msg where
  "msg_garbage = \<lparr>topic = ''room/sensors'', payload = None\<rparr>"

definition delivered :: "mqtt_msg \<Rightarrow> int \<Rightarrow> delivery" where
  "delivered m t = \<lparr>message = m, utcnow = t, write_ok = True\<rparr>"

subsection \<open>Sample stores\<close>

text \<open>
  Two readings that arrive within the same millisecond; one alert; two readings two
  seconds apart and a status between them; one reading with temperature and humidity, and
  one with the temperature alone; one reading, one status and one alert; one alert stored
  under the \<^verbatim>\<open>_id\<close> that its payload brought.
\<close>

definition db_twice :: db where
  "db_twice = run_mqtt empty_db [delivered msg_stamped 1000, delivered msg_stamped 1000]"

definition db_alert :: db where
  "db_alert = run_mqtt empty_db [delivered msg_alert 1000]"

definition db_latest :: db where
  "db_latest =
     run_mqtt empty_db
       [delivered msg_stamped 1000, delivered msg_stamped 3000, delivered msg_status 2000]"

definition db_reading :: db where
  "db_reading = run_mqtt empty_db [delivered msg_reading 1000]"

definition db_temp_only :: db where
  "db_temp_only = run_mqtt empty_db [delivered msg_temp_only 1000]"

definition db_scenario :: db where
  "db_scenario =
     run_mqtt empty_db
       [delivered msg_reading 1000, delivered msg_status 1000, delivered msg_alert 1000]"

definition db_keyed :: db where
  "db_keyed = run_mqtt empty_db [delivered msg_keyed 1000]"

section \<open>Properties\<close>

subsection \<open>Dictionaries and decoding\<close>

lemma map_of_setitem: "map_of (dict_setitem k v d) k' = (if k' = k then Some v else map_of d k')"
  by (induction d) auto

lemma keys_setitem: "fst ` set (dict_setitem k v d) = insert k (fst ` set d)"
  by (induction d) auto

lemma distinct_setitem: "distinct (map fst d) \<Longrightarrow> distinct (map fst (dict_setitem k v d))"
proof (induction d)
  case Nil
  then show ?case by simp
next
  case (Cons p d)
  then show ?case
    using keys_setitem [of k v d] by (auto simp: image_iff)
qed

lemma filter_key_absent: "k \<notin> fst ` set d \<Longrightarrow> filter (\<lambda>p. fst p = k) d = []"
  by (induction d) auto

lemma filter_key_setitem:
  "distinct (map fst d) \<Longrightarrow> filter (\<lambda>p. fst p = k) (dict_setitem k v d) = [(k, v)]"
  by (induction d) (auto simp: filter_key_absent)

lemma distinct_fold_setitem:
  "distinct (map fst acc) \<Longrightarrow>
   distinct (map fst (fold (\<lambda>(k, v) d. dict_setitem k (g v) d) ps acc))"
  by (induction ps arbitrary: acc) (auto simp: distinct_setitem)

lemma loads_object: "\<exists>d. loads (JObj ps) = PDict d \<and> distinct (map fst d)"
  by (simp add: distinct_fold_setitem)

lemma filter_key_remove: "k \<noteq> k' \<Longrightarrow> filter (\<lambda>p. fst p = k) (dict_remove k' d) = filter (\<lambda>p. fst p = k) d"
  by (induction d) (auto simp: dict_remove_def)

lemma map_of_remove: "map_of (dict_remove k' d) k = (if k = k' then None else map_of d k)"
  by (induction d) (auto simp: dict_remove_def)

lemma filter_timestamp_with_id:
  "filter (\<lambda>p. fst p = ''timestamp'') (with_id n d) = filter (\<lambda>p. fst p = ''timestamp'') d"
  by (simp add: with_id_def filter_key_remove split: option.split)

lemma map_of_with_id:
  "k \<noteq> ''_id'' \<Longrightarrow> map_of (with_id n d) k = map_of d k"
  by (simp add: with_id_def map_of_remove split: option.split)

lemma topics_distinct:
  "TOPIC_SENSORS \<noteq> TOPIC_STATUS" "TOPIC_SENSORS \<noteq> TOPIC_ALERT" "TOPIC_STATUS \<noteq> TOPIC_ALERT"
  by (simp_all add: TOPIC_SENSORS_def TOPIC_STATUS_def TOPIC_ALERT_def)

text \<open>What the callback does with an object payload, by destination.\<close>

lemma on_message_try_object:
  assumes "payload msg = Some (JObj ps)" and "loads (JObj ps) = PDict d"
  shows "on_message_try now accepted s msg =
    (case destination (topic msg) of
       None \<Rightarrow> Inr s
     | Some c \<Rightarrow>
        if accepted then
          Inr (let r = with_id (next_oid s) (dict_setitem ''timestamp'' (PDatetime now) d) in
               case c of
                 Sensor_readings \<Rightarrow> s\<lparr>sensor_readings := sensor_readings s @ [r], next_oid := Suc (next_oid s)\<rparr>
               | Status_logs \<Rightarrow> s\<lparr>status_logs := status_logs s @ [r], next_oid := Suc (next_oid s)\<rparr>
               | Alerts \<Rightarrow> s\<lparr>alerts := alerts s @ [r], next_oid := Suc (next_oid s)\<rparr>)
        else Inl WriteError)"
  using assms topics_distinct
  by (auto simp: on_message_try_def destination_def insert_one_def Let_def simp del: loads.simps)

subsection \<open>The callback, case by case\<close>

lemma on_message_object:
  assumes "payload msg = Some (JObj ps)" and "loads (JObj ps) = PDict d"
  shows "on_message now accepted s msg =
    (case destination (topic msg) of
       None \<Rightarrow> s
     | Some c \<Rightarrow>
        if accepted then
          (let r = with_id (next_oid s) (dict_setitem ''timestamp'' (PDatetime now) d) in
               case c of
                 Sensor_readings \<Rightarrow> s\<lparr>sensor_readings := sensor_readings s @ [r], next_oid := Suc (next_oid s)\<rparr>
               | Status_logs \<Rightarrow> s\<lparr>status_logs := status_logs s @ [r], next_oid := Suc (next_oid s)\<rparr>
               | Alerts \<Rightarrow> s\<lparr>alerts := alerts s @ [r], next_oid := Suc (next_oid s)\<rparr>)
        else s)"
  unfolding on_message_def on_message_try_object [OF assms]
  by (simp split: option.split)

lemma on_message_cases:
  obtains (dropped) "on_message now accepted s msg = s"
  | (stored) c d ps where "destination (topic msg) = Some c" "loads (JObj ps) = PDict d"
      "on_message now accepted s msg =
         (let r = with_id (next_oid s) (dict_setitem ''timestamp'' (PDatetime now) d) in
               case c of
                 Sensor_readings \<Rightarrow> s\<lparr>sensor_readings := sensor_readings s @ [r], next_oid := Suc (next_oid s)\<rparr>
               | Status_logs \<Rightarrow> s\<lparr>status_logs := status_logs s @ [r], next_oid := Suc (next_oid s)\<rparr>
               | Alerts \<Rightarrow> s\<lparr>alerts := alerts s @ [r], next_oid := Suc (next_oid s)\<rparr>)"
proof (cases "payload msg")
  case None
  then have "on_message now accepted s msg = s"
    by (simp add: on_message_def on_message_try_def)
  then show ?thesis by (rule dropped)
next
  case (Some j)
  show ?thesis
  proof (cases j)
    case (JObj ps)
    obtain d where d: "loads (JObj ps) = PDict d"
      using loads_object by blast
    have p: "payload msg = Some (JObj ps)"
      using Some JObj by simp
    show ?thesis
    proof (cases "destination (topic msg)")
      case None
      then have "on_message now accepted s msg = s"
        by (simp add: on_message_object [OF p d])
      then show ?thesis by (rule dropped)
    next
      case (Some c)
      show ?thesis
      proof (cases accepted)
        case True
        show ?thesis
          by (rule stored [OF Some d]) (simp add: on_message_object [OF p d] Some True)
      next
        case False
        then have "on_message now accepted s msg = s"
          by (simp add: on_message_object [OF p d] Some)
        then show ?thesis by (rule dropped)
      qed
    qed
  qed (rule dropped, simp add: on_message_def on_message_try_def Some)+
qed

lemma run_mqtt_append: "run_mqtt s (es @ fs) = run_mqtt (run_mqtt s es) fs"
  by (induction es arbitrary: s) auto

lemma has_datetime_stamped:
  "has_datetime (with_id n (dict_setitem ''timestamp'' (PDatetime now) d))"
  by (simp add: has_datetime_def timestamp_of_def map_of_with_id map_of_setitem)

lemma on_message_keeps_datetime:
  assumes "list_all has_datetime (collection s c)"
  shows "list_all has_datetime (collection (on_message now accepted s msg) c)"
proof (cases rule: on_message_cases [of now accepted s msg])
  case dropped
  then show ?thesis using assms by simp
next
  case (stored c' d ps)
  then show ?thesis
    using assms by (cases c; cases c') (simp_all add: Let_def has_datetime_stamped)
qed

lemma reachable_has_datetime:
  "reachable s \<Longrightarrow> list_all has_datetime (collection s c)"
proof (induction rule: reachable.induct)
  case start
  then show ?case by (cases c) (simp_all add: empty_db_def)
next
  case (step s now accepted msg)
  then show ?case by (simp add: on_message_keeps_datetime)
qed

lemma set_insert_desc: "set (insert_desc f x ys) = insert x (set ys)"
  by (induction ys) auto

lemma set_sort_desc: "set (sort_desc f xs) = set xs"
  by (induction xs) (auto simp: set_insert_desc)

lemma limit_cursor_subset: "limit_cursor n xs = Inr ys \<Longrightarrow> set ys \<subseteq> set xs"
  by (auto simp: limit_cursor_def split: if_splits dest: in_set_takeD)

lemma has_datetime_remove_id: "has_datetime (dict_remove ''_id'' d) = has_datetime d"
  by (simp add: has_datetime_def timestamp_of_def map_of_remove)

lemma find_sorted_has_datetime:
  assumes "list_all has_datetime coll" and "find_sorted coll flt n = Inr ds"
  shows "list_all has_datetime ds"
proof -
  obtain ys where ys: "limit_cursor n (sort_desc ''timestamp'' (filter (matches flt) coll)) = Inr ys"
    and ds: "ds = map (dict_remove ''_id'') ys"
    using assms(2) by (auto simp: find_sorted_def split: sum.splits)
  have "set ys \<subseteq> set coll"
    using limit_cursor_subset [OF ys] by (auto simp: set_sort_desc)
  then show ?thesis
    using assms(1) by (auto simp: ds list_all_iff has_datetime_remove_id)
qed

lemma find_one_has_datetime:
  assumes "list_all has_datetime coll" and "find_one coll = Some r"
  shows "has_datetime r"
proof -
  obtain d ds where "sort_desc ''timestamp'' (filter (matches Everything) coll) = d # ds" and r: "r = dict_remove ''_id'' d"
    using assms(2) by (auto simp: find_one_def split: list.splits)
  then have "d \<in> set (sort_desc ''timestamp'' (filter (matches Everything) coll))"
    by simp
  then have "d \<in> set coll"
    by (simp add: set_sort_desc)
  then show ?thesis
    using assms(1) by (simp add: r list_all_iff has_datetime_remove_id)
qed

lemma isoformat_timestamp_ok:
  "has_datetime r \<Longrightarrow> \<exists>t. timestamp_of r = Some t \<and> isoformat_timestamp r = Inr (dict_setitem ''timestamp'' (PStr (isoformat t)) r)"
  by (auto simp: has_datetime_def timestamp_of_def isoformat_timestamp_def dict_getitem_def
      split: option.splits pyval.splits)

lemma isoformat_each_ok:
  "list_all has_datetime rs \<Longrightarrow> \<exists>rs'. isoformat_each rs = Inr rs'"
proof (induction rs)
  case Nil
  then show ?case by simp
next
  case (Cons r rs)
  then obtain rs' where "isoformat_each rs = Inr rs'" by auto
  moreover obtain r' where "isoformat_timestamp r = Inr r'"
    using Cons.prems isoformat_timestamp_ok [of r] by auto
  ultimately show ?case by simp
qed

subsection \<open>The listener\<close>

text \<open>
  Claim C3. Take a message whose payload decodes to a JSON object, on one of the three
  topics, and let the store accept the write. Then \<^verbatim>\<open>on_message\<close> appends one record to
  the collection of the topic; that record has exactly one item under \<^verbatim>\<open>timestamp\<close>, and
  its value is the clock reading taken in the callback, whatever the payload held under
  that key.
\<close>

theorem on_message_stamps_receipt_time:
  assumes "payload msg = Some (JObj ps)" and "destination (topic msg) = Some c"
  shows "\<exists>r. collection (on_message now True s msg) c = collection s c @ [r]
           \<and> filter (\<lambda>p. fst p = ''timestamp'') r = [(''timestamp'', PDatetime now)]
           \<and> timestamp_of r = Some now"
proof -
  obtain d where d: "loads (JObj ps) = PDict d" and dist: "distinct (map fst d)"
    using loads_object by blast
  let ?r = "with_id (next_oid s) (dict_setitem ''timestamp'' (PDatetime now) d)"
  have "collection (on_message now True s msg) c = collection s c @ [?r]"
    by (cases c) (simp_all add: on_message_object [OF assms(1) d] assms(2) Let_def)
  moreover have "filter (\<lambda>p. fst p = ''timestamp'') ?r = [(''timestamp'', PDatetime now)]"
    by (simp add: filter_timestamp_with_id filter_key_setitem [OF dist])
  moreover have "timestamp_of ?r = Some now"
    by (simp add: timestamp_of_def map_of_with_id map_of_setitem)
  ultimately show ?thesis by blast
qed

theorem on_message_stamps_receipt_time_witness:
  "payload msg_stamped = Some (JObj [(''temp'', JInt 21), (''timestamp'', JStr ''2020-01-01'')])
   \<and> destination (topic msg_stamped) = Some Sensor_readings
   \<and> (\<exists>r. collection (on_message 1000 True empty_db msg_stamped) Sensor_readings
              = collection empty_db Sensor_readings @ [r]
          \<and> filter (\<lambda>p. fst p = ''timestamp'') r = [(''timestamp'', PDatetime 1000)]
          \<and> timestamp_of r = Some 1000)"
proof -
  have p: "payload msg_stamped = Some (JObj [(''temp'', JInt 21), (''timestamp'', JStr ''2020-01-01'')])"
    by (simp add: msg_stamped_def)
  have t: "destination (topic msg_stamped) = Some Sensor_readings"
    by (simp add: msg_stamped_def destination_def TOPIC_SENSORS_def)
  show ?thesis
    using p t on_message_stamps_receipt_time [OF p t, of 1000 empty_db] by blast
qed

text \<open>
  Claim C4. A message whose payload cannot be decoded raises inside the \<^verbatim>\<open>try\<close> block and
  leaves the three collections as they were. The callback returns, so that the run of the
  listener is the run without that message. A message with an object payload on one of the
  three topics that is delivered after it, and whose write the store accepts, is stored as
  usual: its collection grows by exactly the stamped payload, which carries the clock
  reading of its own handling, and the two other collections stay as they were. Every
  exception of the block, from decoding or from the insert, ends in the handler with the
  database unchanged.
\<close>

theorem malformed_message_is_dropped:
  assumes "payload msg = None"
  shows "on_message_try now accepted s msg = Inl DecodeError
       \<and> on_message now accepted s msg = s
       \<and> run_mqtt s (before @ \<lparr>message = msg, utcnow = now, write_ok = accepted\<rparr> # after)
           = run_mqtt s (before @ after)
       \<and> (payload good = Some (JObj ps) \<and> loads (JObj ps) = PDict d
            \<and> destination (topic good) = Some c \<longrightarrow>
            collection
              (run_mqtt s [\<lparr>message = msg, utcnow = now, write_ok = accepted\<rparr>,
                           \<lparr>message = good, utcnow = t, write_ok = True\<rparr>]) c
              = collection s c @ [with_id (next_oid s) (dict_setitem ''timestamp'' (PDatetime t) d)]
            \<and> timestamp_of (last (collection
              (run_mqtt s [\<lparr>message = msg, utcnow = now, write_ok = accepted\<rparr>,
                           \<lparr>message = good, utcnow = t, write_ok = True\<rparr>]) c)) = Some t
            \<and> (\<forall>c'. c' \<noteq> c \<longrightarrow>
                 collection
                   (run_mqtt s [\<lparr>message = msg, utcnow = now, write_ok = accepted\<rparr>,
                                \<lparr>message = good, utcnow = t, write_ok = True\<rparr>]) c'
                 = collection s c'))
       \<and> (\<forall>now' accepted' s' msg' e.
            on_message_try now' accepted' s' msg' = Inl e \<longrightarrow> on_message now' accepted' s' msg' = s')"
proof -
  have 1: "on_message_try now accepted s' msg = Inl DecodeError" for s'
    using assms by (simp add: on_message_try_def)
  then have 2: "on_message now accepted s' msg = s'" for s'
    by (simp add: on_message_def)
  have 3: "run_mqtt s (before @ \<lparr>message = msg, utcnow = now, write_ok = accepted\<rparr> # after)
           = run_mqtt s (before @ after)"
    by (simp add: run_mqtt_append 2)
  have 4: "on_message now' accepted' s' msg' = s'"
    if "on_message_try now' accepted' s' msg' = Inl e" for now' accepted' s' msg' e
    using that by (simp add: on_message_def)
  let ?run = "run_mqtt s [\<lparr>message = msg, utcnow = now, write_ok = accepted\<rparr>,
                           \<lparr>message = good, utcnow = t, write_ok = True\<rparr>]"
  let ?r = "with_id (next_oid s) (dict_setitem ''timestamp'' (PDatetime t) d)"
  have 5: "collection ?run c = collection s c @ [?r]
           \<and> timestamp_of (last (collection ?run c)) = Some t
           \<and> (\<forall>c'. c' \<noteq> c \<longrightarrow> collection ?run c' = collection s c')"
    if p: "payload good = Some (JObj ps)" and l: "loads (JObj ps) = PDict d"
      and c: "destination (topic good) = Some c"
  proof -
    have run: "?run = on_message t True s good"
      by (simp add: 2)
    have stored: "collection ?run c = collection s c @ [?r]"
      unfolding run on_message_object [OF p l] c
      by (cases c) (simp_all add: Let_def)
    have stamp: "timestamp_of ?r = Some t"
      by (simp add: timestamp_of_def map_of_with_id map_of_setitem)
    have others: "collection ?run c' = collection s c'" if "c' \<noteq> c" for c'
      unfolding run on_message_object [OF p l] c
      using that by (cases c; cases c') (simp_all add: Let_def)
    show ?thesis
      using stored stamp others by simp
  qed
  show ?thesis
    using 1 2 3 4 5 by blast
qed

theorem malformed_message_is_dropped_witness:
  "payload msg_garbage = None
   \<and> on_message 1000 True empty_db msg_garbage = empty_db
   \<and> run_mqtt empty_db ([] @ \<lparr>message = msg_garbage, utcnow = 1000, write_ok = True\<rparr> # [delivered msg_status 2000])
       = run_mqtt empty_db ([] @ [delivered msg_status 2000])
   \<and> payload msg_status = Some (JObj [(''door'', JStr ''open''), (''occupant_count'', JInt 2)])
   \<and> loads (JObj [(''door'', JStr ''open''), (''occupant_count'', JInt 2)])
       = PDict [(''door'', PStr ''open''), (''occupant_count'', PInt 2)]
   \<and> destination (topic msg_status) = Some Status_logs
   \<and> status_logs
        (run_mqtt empty_db [\<lparr>message = msg_garbage, utcnow = 1000, write_ok = True\<rparr>,
                            \<lparr>message = msg_status, utcnow = 2000, write_ok = True\<rparr>])
       = [[(''_id'', PObjectId 0), (''door'', PStr ''open''), (''occupant_count'', PInt 2),
           (''timestamp'', PDatetime 2000)]]
   \<and> sensor_readings
        (run_mqtt empty_db [\<lparr>message = msg_garbage, utcnow = 1000, write_ok = True\<rparr>,
                            \<lparr>message = msg_status, utcnow = 2000, write_ok = True\<rparr>]) = []
   \<and> on_message_try 3000 False empty_db msg_status = Inl WriteError
   \<and> on_message 3000 False empty_db msg_status = empty_db"
proof -
  let ?ps = "[(''door'', JStr ''open''), (''occupant_count'', JInt 2)]"
  let ?d = "[(''door'', PStr ''open''), (''occupant_count'', PInt 2)]"
  have p: "payload msg_garbage = None"
    by (simp add: msg_garbage_def)
  have g: "payload msg_status = Some (JObj ?ps)"
    by (simp add: msg_status_def)
  have l: "loads (JObj ?ps) = PDict ?d"
    by simp
  have c: "destination (topic msg_status) = Some Status_logs"
    by (simp add: msg_status_def destination_def TOPIC_SENSORS_def TOPIC_STATUS_def)
  have r: "with_id (next_oid empty_db) (dict_setitem ''timestamp'' (PDatetime 2000) ?d)
           = [(''_id'', PObjectId 0), (''door'', PStr ''open''), (''occupant_count'', PInt 2),
              (''timestamp'', PDatetime 2000)]"
    by (simp add: with_id_def empty_db_def)
  have e: "collection empty_db Status_logs = [] \<and> collection empty_db Sensor_readings = []"
    by (simp add: empty_db_def)
  have w: "on_message_try 3000 False empty_db msg_status = Inl WriteError"
    by (simp add: on_message_try_def msg_status_def insert_one_def TOPIC_SENSORS_def TOPIC_STATUS_def)
  have n: "Sensor_readings \<noteq> Status_logs"
    by simp
  note T = malformed_message_is_dropped [OF p, where now = 1000 and accepted = True and s = empty_db and before = "[]"
        and after = "[delivered msg_status 2000]" and good = msg_status and ps = ?ps and d = ?d
        and c = Status_logs and t = 2000]
  let ?run = "run_mqtt empty_db [\<lparr>message = msg_garbage, utcnow = 1000, write_ok = True\<rparr>,
                            \<lparr>message = msg_status, utcnow = 2000, write_ok = True\<rparr>]"
  have d: "on_message 1000 True empty_db msg_garbage = empty_db
           \<and> run_mqtt empty_db ([] @ \<lparr>message = msg_garbage, utcnow = 1000, write_ok = True\<rparr> # [delivered msg_status 2000])
               = run_mqtt empty_db ([] @ [delivered msg_status 2000])"
    using T by blast
  have a: "collection ?run Status_logs
             = collection empty_db Status_logs
               @ [with_id (next_oid empty_db) (dict_setitem ''timestamp'' (PDatetime 2000) ?d)]"
    using T g l c by blast
  have b: "collection ?run Sensor_readings = collection empty_db Sensor_readings"
    using T g l c n by blast
  have a': "status_logs ?run
       = [[(''_id'', PObjectId 0), (''door'', PStr ''open''), (''occupant_count'', PInt 2),
           (''timestamp'', PDatetime 2000)]]"
    using a e unfolding r by simp
  have b': "sensor_readings ?run = []"
    using b e by simp
  have f: "on_message 3000 False empty_db msg_status = empty_db"
    using T w by blast
  show ?thesis
    using p d g l c a' b' w f by blast
qed

text \<open>The store after an alert that brings \<^verbatim>\<open>"_id": 7\<close>: the record keeps that key.\<close>

lemma db_keyed_eq:
  "db_keyed =
     \<lparr>sensor_readings = [], status_logs = [],
      alerts = [[(''_id'', PInt 7), (''type'', PStr ''fire''), (''timestamp'', PDatetime 1000)]],
      next_oid = 1\<rparr>"
  by (simp add: db_keyed_def delivered_def on_message_def on_message_try_def msg_keyed_def
      insert_one_def with_id_def dict_remove_def TOPIC_SENSORS_def TOPIC_STATUS_def TOPIC_ALERT_def
      empty_db_def Let_def)

text \<open>
  Claim C5 as it is stated does not hold. The insert can fail, and the handler catches the
  failure: an alert that brings its own \<^verbatim>\<open>_id\<close> is stored under it, and when the same
  alert is delivered again the store refuses the repeated \<^verbatim>\<open>_id\<close>. The second message is
  well formed and goes to \<^verbatim>\<open>alerts\<close>, and no record is created for it.
\<close>

theorem on_message_repeated_id_counterexample:
  "payload msg_keyed = Some (JObj [(''_id'', JInt 7), (''type'', JStr ''fire'')])
   \<and> destination (topic msg_keyed) = Some Alerts
   \<and> alerts db_keyed
       = [[(''_id'', PInt 7), (''type'', PStr ''fire''), (''timestamp'', PDatetime 1000)]]
   \<and> on_message_try 2000 False db_keyed msg_keyed = Inl WriteError
   \<and> alerts (run_mqtt db_keyed [\<lparr>message = msg_keyed, utcnow = 2000, write_ok = False\<rparr>])
       = [[(''_id'', PInt 7), (''type'', PStr ''fire''), (''timestamp'', PDatetime 1000)]]
   \<and> run_mqtt db_keyed [\<lparr>message = msg_keyed, utcnow = 2000, write_ok = False\<rparr>] = db_keyed"
proof -
  have w: "on_message_try 2000 False db_keyed msg_keyed = Inl WriteError"
    by (simp add: on_message_try_def msg_keyed_def insert_one_def TOPIC_SENSORS_def
        TOPIC_STATUS_def TOPIC_ALERT_def)
  then have r: "run_mqtt db_keyed [\<lparr>message = msg_keyed, utcnow = 2000, write_ok = False\<rparr>] = db_keyed"
    by (simp add: on_message_def)
  have d: "destination (topic msg_keyed) = Some Alerts"
    by (simp add: msg_keyed_def destination_def TOPIC_SENSORS_def TOPIC_STATUS_def TOPIC_ALERT_def)
  show ?thesis
    unfolding r using w d by (simp add: db_keyed_eq) (simp add: msg_keyed_def)
qed

text \<open>
  Claim C5, amended. A message whose payload decodes to a JSON object is routed by its topic:
  \<^verbatim>\<open>room/sensors\<close> to \<^verbatim>\<open>sensor_readings\<close>, \<^verbatim>\<open>room/status\<close> to \<^verbatim>\<open>status_logs\<close>,
  \<^verbatim>\<open>room/alert\<close> to \<^verbatim>\<open>alerts\<close>. When the store accepts the write, exactly one record,
  the stamped payload, is appended to that collection, whatever the collection already
  holds, and the two other collections stay as they were; a refused write changes nothing.
\<close>

theorem on_message_routes_one_insert:
  assumes "payload msg = Some (JObj ps)" and "loads (JObj ps) = PDict d"
    and "s' = on_message now True s msg"
    and "r = with_id (next_oid s) (dict_setitem ''timestamp'' (PDatetime now) d)"
  shows "(topic msg = TOPIC_SENSORS \<longrightarrow>
            sensor_readings s' = sensor_readings s @ [r] \<and> status_logs s' = status_logs s
            \<and> alerts s' = alerts s)
       \<and> (topic msg = TOPIC_STATUS \<longrightarrow>
            status_logs s' = status_logs s @ [r] \<and> sensor_readings s' = sensor_readings s
            \<and> alerts s' = alerts s)
       \<and> (topic msg = TOPIC_ALERT \<longrightarrow>
            alerts s' = alerts s @ [r] \<and> sensor_readings s' = sensor_readings s
            \<and> status_logs s' = status_logs s)
       \<and> on_message now False s msg = s"
  using topics_distinct
  by (simp add: assms(3,4) on_message_object [OF assms(1,2)] destination_def Let_def)

theorem on_message_routes_one_insert_witness:
  "(payload msg_stamped = Some (JObj [(''temp'', JInt 21), (''timestamp'', JStr ''2020-01-01'')])
    \<and> loads (JObj [(''temp'', JInt 21), (''timestamp'', JStr ''2020-01-01'')])
        = PDict [(''temp'', PInt 21), (''timestamp'', PStr ''2020-01-01'')]
    \<and> topic msg_stamped = TOPIC_SENSORS
    \<and> sensor_readings (on_message 1000 True empty_db msg_stamped)
        = sensor_readings empty_db
          @ [[(''_id'', PObjectId 0), (''temp'', PInt 21), (''timestamp'', PDatetime 1000)]]
    \<and> status_logs (on_message 1000 True empty_db msg_stamped) = status_logs empty_db
    \<and> alerts (on_message 1000 True empty_db msg_stamped) = alerts empty_db)
   \<and> (payload msg_status = Some (JObj [(''door'', JStr ''open''), (''occupant_count'', JInt 2)])
    \<and> loads (JObj [(''door'', JStr ''open''), (''occupant_count'', JInt 2)])
        = PDict [(''door'', PStr ''open''), (''occupant_count'', PInt 2)]
    \<and> topic msg_status = TOPIC_STATUS
    \<and> status_logs (on_message 1000 True empty_db msg_status)
        = status_logs empty_db
          @ [[(''_id'', PObjectId 0), (''door'', PStr ''open''), (''occupant_count'', PInt 2),
              (''timestamp'', PDatetime 1000)]]
    \<and> sensor_readings (on_message 1000 True empty_db msg_status) = sensor_readings empty_db
    \<and> alerts (on_message 1000 True empty_db msg_status) = alerts empty_db)
   \<and> (payload msg_alert = Some (JObj [(''type'', JStr ''fire''), (''message'', JStr ''smoke detected'')])
    \<and> loads (JObj [(''type'', JStr ''fire''), (''message'', JStr ''smoke detected'')])
        = PDict [(''type'', PStr ''fire''), (''message'', PStr ''smoke detected'')]
    \<and> topic msg_alert = TOPIC_ALERT
    \<and> alerts (on_message 1000 True empty_db msg_alert)
        = alerts empty_db
          @ [[(''_id'', PObjectId 0), (''type'', PStr ''fire''),
              (''message'', PStr ''smoke detected''), (''timestamp'', PDatetime 1000)]]
    \<and> sensor_readings (on_message 1000 True empty_db msg_alert) = sensor_readings empty_db
    \<and> status_logs (on_message 1000 True empty_db msg_alert) = status_logs empty_db)"
proof -
  have p1: "payload msg_stamped
      = Some (JObj [(''temp'', JInt 21), (''timestamp'', JStr ''2020-01-01'')])"
    by (simp add: msg_stamped_def)
  have l1: "loads (JObj [(''temp'', JInt 21), (''timestamp'', JStr ''2020-01-01'')])
        = PDict [(''temp'', PInt 21), (''timestamp'', PStr ''2020-01-01'')]"
    by simp
  have t1: "topic msg_stamped = TOPIC_SENSORS"
    by (simp add: msg_stamped_def TOPIC_SENSORS_def)
  have r1: "[(''_id'', PObjectId 0), (''temp'', PInt 21), (''timestamp'', PDatetime 1000)]
         = with_id (next_oid empty_db) (dict_setitem ''timestamp'' (PDatetime 1000)
             [(''temp'', PInt 21), (''timestamp'', PStr ''2020-01-01'')])"
    by (simp add: with_id_def empty_db_def)
  have p2: "payload msg_status
      = Some (JObj [(''door'', JStr ''open''), (''occupant_count'', JInt 2)])"
    by (simp add: msg_status_def)
  have l2: "loads (JObj [(''door'', JStr ''open''), (''occupant_count'', JInt 2)])
        = PDict [(''door'', PStr ''open''), (''occupant_count'', PInt 2)]"
    by simp
  have t2: "topic msg_status = TOPIC_STATUS"
    by (simp add: msg_status_def TOPIC_STATUS_def)
  have r2: "[(''_id'', PObjectId 0), (''door'', PStr ''open''), (''occupant_count'', PInt 2),
              (''timestamp'', PDatetime 1000)]
         = with_id (next_oid empty_db) (dict_setitem ''timestamp'' (PDatetime 1000)
             [(''door'', PStr ''open''), (''occupant_count'', PInt 2)])"
    by (simp add: with_id_def empty_db_def)
  have p3: "payload msg_alert
      = Some (JObj [(''type'', JStr ''fire''), (''message'', JStr ''smoke detected'')])"
    by (simp add: msg_alert_def)
  have l3: "loads (JObj [(''type'', JStr ''fire''), (''message'', JStr ''smoke detected'')])
       = PDict [(''type'', PStr ''fire''), (''message'', PStr ''smoke detected'')]"
    by simp
  have t3: "topic msg_alert = TOPIC_ALERT"
    by (simp add: msg_alert_def TOPIC_ALERT_def)
  have r3: "[(''_id'', PObjectId 0), (''type'', PStr ''fire''),
            (''message'', PStr ''smoke detected''), (''timestamp'', PDatetime 1000)]
         = with_id (next_oid empty_db) (dict_setitem ''timestamp'' (PDatetime 1000)
             [(''type'', PStr ''fire''), (''message'', PStr ''smoke detected'')])"
    by (simp add: with_id_def empty_db_def)
  show ?thesis
    using p1 l1 t1 on_message_routes_one_insert [OF p1 l1 refl r1]
      p2 l2 t2 on_message_routes_one_insert [OF p2 l2 refl r2]
      p3 l3 t3 on_message_routes_one_insert [OF p3 l3 refl r3]
    by simp
qed

text \<open>
  Claim C10. In every state that the listener reaches from the empty database, each record
  of the three collections has a \<^verbatim>\<open>datetime\<close> under \<^verbatim>\<open>timestamp\<close>; hence the conversion to
  an ISO string succeeds on all the records a list query returns and on the record a
  latest query returns.
\<close>

theorem listener_records_carry_datetime:
  assumes "reachable s"
  shows "list_all has_datetime (sensor_readings s)
       \<and> list_all has_datetime (status_logs s)
       \<and> list_all has_datetime (alerts s)
       \<and> (\<forall>c flt n ds. find_sorted (collection s c) flt n = Inr ds \<longrightarrow>
             (\<exists>rs. isoformat_each ds = Inr rs))
       \<and> (\<forall>c r. find_one (collection s c) = Some r \<longrightarrow>
             (\<exists>r'. isoformat_timestamp r = Inr r'))"
proof -
  have inv: "list_all has_datetime (collection s c)" for c
    using assms by (rule reachable_has_datetime)
  have "\<exists>rs. isoformat_each ds = Inr rs" if "find_sorted (collection s c) flt n = Inr ds" for c flt n ds
    using find_sorted_has_datetime [OF inv that] by (rule isoformat_each_ok)
  moreover have "\<exists>r'. isoformat_timestamp r = Inr r'" if "find_one (collection s c) = Some r" for c r
    using isoformat_timestamp_ok [OF find_one_has_datetime [OF inv that]] by blast
  ultimately show ?thesis
    using inv [of Sensor_readings] inv [of Status_logs] inv [of Alerts] by simp
qed

lemma stored_stamped:
  "on_message 1000 True empty_db msg_stamped =
     \<lparr>sensor_readings = [[(''_id'', PObjectId 0), (''temp'', PInt 21), (''timestamp'', PDatetime 1000)]],
      status_logs = [], alerts = [], next_oid = 1\<rparr>"
  by (simp add: on_message_def on_message_try_def msg_stamped_def insert_one_def with_id_def
      TOPIC_SENSORS_def empty_db_def)

theorem listener_records_carry_datetime_witness:
  "reachable (on_message 1000 True empty_db msg_stamped)
   \<and> list_all has_datetime (sensor_readings (on_message 1000 True empty_db msg_stamped))
   \<and> find_sorted (collection (on_message 1000 True empty_db msg_stamped) Sensor_readings)
        (Timestamp_gte 0) 10 = Inr [[(''temp'', PInt 21), (''timestamp'', PDatetime 1000)]]
   \<and> (\<exists>rs. isoformat_each [[(''temp'', PInt 21), (''timestamp'', PDatetime 1000)]] = Inr rs)
   \<and> find_one (collection (on_message 1000 True empty_db msg_stamped) Sensor_readings)
        = Some [(''temp'', PInt 21), (''timestamp'', PDatetime 1000)]
   \<and> (\<exists>r'. isoformat_timestamp [(''temp'', PInt 21), (''timestamp'', PDatetime 1000)] = Inr r')"
proof -
  have r: "reachable (on_message 1000 True empty_db msg_stamped)"
    by (intro reachable.intros)
  have f: "find_sorted (collection (on_message 1000 True empty_db msg_stamped) Sensor_readings)
        (Timestamp_gte 0) 10 = Inr [[(''temp'', PInt 21), (''timestamp'', PDatetime 1000)]]"
    by (simp add: stored_stamped find_sorted_def limit_cursor_def field_gte_def dict_remove_def)
  have o: "find_one (collection (on_message 1000 True empty_db msg_stamped) Sensor_readings)
        = Some [(''temp'', PInt 21), (''timestamp'', PDatetime 1000)]"
    by (simp add: stored_stamped find_one_def dict_remove_def)
  show ?thesis
    using r f o listener_records_carry_datetime [OF r] by blast
qed


subsection \<open>Sorting by timestamp\<close>

lemma and_then_simps [simp]:
  "and_then Equal d = d" "and_then Less d = Less" "and_then Greater d = Greater"
  by (simp_all add: and_then_def)

lemma cmp_same [simp]: "cmp a a = Equal"
  by (simp add: cmp_def)

lemma bson_cmp_date_other:
  "\<forall>a. x \<noteq> PDatetime a \<Longrightarrow> bson_cmp (PDatetime b) x = Greater"
  by (cases x) (simp_all add: cmp_def)

lemma bson_cmp_other_date:
  "\<forall>a. x \<noteq> PDatetime a \<Longrightarrow> bson_cmp x (PDatetime b) = Less"
  by (cases x) (simp_all add: cmp_def)

lemma date_gte_iff: "date_gte since v = (\<exists>t. v = PDatetime t \<and> since \<le> t)"
  by (cases v) simp_all

lemma bson_max_keeps_left: "date_gte since y \<Longrightarrow> date_gte since (bson_max y x)"
proof -
  assume "date_gte since y"
  then obtain b where y: "y = PDatetime b" and b: "since \<le> b"
    by (auto simp: date_gte_iff)
  show ?thesis
  proof (cases "\<exists>a. x = PDatetime a")
    case True
    then obtain a where "x = PDatetime a" by blast
    then show ?thesis
      using b by (auto simp: y bson_max_def cmp_def split: if_splits)
  next
    case False
    then have "bson_cmp (PDatetime b) x = Greater"
      by (intro bson_cmp_date_other) simp
    then show ?thesis
      using b by (simp add: y bson_max_def)
  qed
qed

lemma bson_max_keeps_right: "date_gte since x \<Longrightarrow> date_gte since (bson_max y x)"
proof -
  assume "date_gte since x"
  then obtain a where x: "x = PDatetime a" and a: "since \<le> a"
    by (auto simp: date_gte_iff)
  show ?thesis
  proof (cases "\<exists>b. y = PDatetime b")
    case True
    then obtain b where "y = PDatetime b" by blast
    then show ?thesis
      using a by (auto simp: x bson_max_def cmp_def split: if_splits)
  next
    case False
    then have "bson_cmp y (PDatetime a) = Less"
      by (intro bson_cmp_other_date) simp
    then show ?thesis
      using a by (simp add: x bson_max_def)
  qed
qed

lemma fold_bson_max_date:
  "date_gte since x \<or> list_ex (date_gte since) xs \<Longrightarrow> date_gte since (fold bson_max xs x)"
proof (induction xs arbitrary: x)
  case Nil
  then show ?case by simp
next
  case (Cons y ys)
  have "date_gte since (bson_max y x) \<or> list_ex (date_gte since) ys"
    using Cons.prems bson_max_keeps_left [of since y x] bson_max_keeps_right [of since x y]
    by auto
  then show ?case
    using Cons.IH [of "bson_max y x"] by simp
qed

lemma field_gte_date_key:
  assumes "field_gte f since d"
  shows "\<exists>t. date_key f d = Some t \<and> since \<le> t"
proof (cases "map_of d f")
  case None
  then show ?thesis using assms by (simp add: field_gte_def)
next
  case (Some v)
  show ?thesis
  proof (cases "\<exists>xs. v = PList xs")
    case True
    then obtain xs where v: "v = PList xs" by blast
    then have ex: "list_ex (date_gte since) xs"
      using assms Some by (simp add: field_gte_def)
    then obtain y ys where xs: "xs = y # ys"
      by (cases xs) auto
    have "date_gte since (fold bson_max ys y)"
      using ex by (intro fold_bson_max_date) (auto simp: xs)
    then show ?thesis
      by (auto simp: date_key_def sort_key_def Some v xs date_gte_iff)
  next
    case False
    then have "date_gte since v"
      using assms Some by (cases v) (auto simp: field_gte_def)
    then show ?thesis
      by (auto simp: date_key_def sort_key_def Some date_gte_iff)
  qed
qed

lemma timestamp_of_date_key: "timestamp_of d = Some t \<Longrightarrow> date_key ''timestamp'' d = Some t"
  by (auto simp: timestamp_of_def date_key_def sort_key_def split: option.splits pyval.splits)

lemma key_cmp_date_keys:
  "date_key f x = Some a \<Longrightarrow> date_key f y = Some b \<Longrightarrow>
   key_cmp (sort_key f x) (sort_key f y) = cmp a b"
  by (auto simp: date_key_def split: option.splits pyval.splits)

lemma sorted_insert_desc:
  assumes "sorted_wrt (newer_first f) ys" and "date_key f x \<noteq> None"
    and "\<forall>y\<in>set ys. date_key f y \<noteq> None"
  shows "sorted_wrt (newer_first f) (insert_desc f x ys)"
  using assms
proof (induction ys)
  case Nil
  then show ?case by simp
next
  case (Cons y ys)
  obtain a b where a: "date_key f x = Some a" and b: "date_key f y = Some b"
    using Cons.prems by auto
  show ?case
  proof (cases "key_cmp (sort_key f x) (sort_key f y) = Less")
    case True
    then have "a < b"
      using key_cmp_date_keys [OF a b] by (simp add: cmp_def split: if_splits)
    then have yx: "newer_first f y x"
      by (simp add: newer_first_def a b)
    have "sorted_wrt (newer_first f) (insert_desc f x ys)"
      using Cons by simp
    moreover have "\<forall>z\<in>set ys. newer_first f y z"
      using Cons.prems by simp
    ultimately show ?thesis
      using True yx by (simp add: set_insert_desc)
  next
    case False
    then have ba: "b \<le> a"
      using key_cmp_date_keys [OF a b] by (simp add: cmp_def split: if_splits)
    have "newer_first f x z" if "z \<in> set ys" for z
    proof -
      have "date_key f z \<noteq> None"
        using Cons.prems(3) that by simp
      then obtain c where c: "date_key f z = Some c"
        by blast
      have "newer_first f y z"
        using Cons.prems that by simp
      then show ?thesis
        using ba by (simp add: newer_first_def a b c)
    qed
    then have "\<forall>z\<in>set ys. newer_first f x z" by blast
    moreover have "newer_first f x y"
      using ba by (simp add: newer_first_def a b)
    ultimately show ?thesis
      using False Cons.prems by simp
  qed
qed

lemma sorted_sort_desc:
  "\<forall>x\<in>set xs. date_key f x \<noteq> None \<Longrightarrow> sorted_wrt (newer_first f) (sort_desc f xs)"
  by (induction xs) (auto simp: sorted_insert_desc set_sort_desc)

lemma length_insert_desc: "length (insert_desc f x ys) = Suc (length ys)"
  by (induction ys) auto

lemma length_sort_desc: "length (sort_desc f xs) = length xs"
  by (induction xs) (auto simp: length_insert_desc)

subsection \<open>The list routes\<close>

lemma db_twice_eq:
  "db_twice =
     \<lparr>sensor_readings =
        [[(''_id'', PObjectId 0), (''temp'', PInt 21), (''timestamp'', PDatetime 1000)],
         [(''_id'', PObjectId 1), (''temp'', PInt 21), (''timestamp'', PDatetime 1000)]],
      status_logs = [], alerts = [], next_oid = 2\<rparr>"
  by (simp add: db_twice_def delivered_def on_message_def on_message_try_def msg_stamped_def
      insert_one_def with_id_def TOPIC_SENSORS_def empty_db_def Let_def eval_nat_numeral)

lemma iso_1000: "isoformat 1000 = ''1970-01-01T00:00:01''"
  by code_simp

lemma since_of_small: "since_of 2000 1 = Inr (- 3598000)"
  by (simp add: since_of_def timedelta_hours_def datetime_sub_def MIN_DATETIME_def MAX_DATETIME_def)

lemma sorted_twice:
  "sort_desc ''timestamp'' (filter (matches (Timestamp_gte (- 3598000))) (sensor_readings db_twice))
   = sensor_readings db_twice"
  by (simp add: db_twice_eq field_gte_def sort_key_def cmp_def)

lemma get_sensors_twice_0:
  "get_sensors 2000 db_twice (Some 1) (Some 0) =
     Inr (PList [PDict [(''temp'', PInt 21), (''timestamp'', PStr ''1970-01-01T00:00:01'')],
                 PDict [(''temp'', PInt 21), (''timestamp'', PStr ''1970-01-01T00:00:01'')]])"
  apply (simp add: get_sensors_def args_get_def since_of_small find_sorted_def sorted_twice)
  apply (simp add: db_twice_eq limit_cursor_def dict_remove_def isoformat_timestamp_def
      dict_getitem_def iso_1000 jsonify_def)
  done

lemma get_sensors_twice_5:
  "get_sensors 2000 db_twice (Some 1) (Some 5) =
     Inr (PList [PDict [(''temp'', PInt 21), (''timestamp'', PStr ''1970-01-01T00:00:01'')],
                 PDict [(''temp'', PInt 21), (''timestamp'', PStr ''1970-01-01T00:00:01'')]])"
  apply (simp add: get_sensors_def args_get_def since_of_small find_sorted_def sorted_twice)
  apply (simp add: db_twice_eq limit_cursor_def dict_remove_def isoformat_timestamp_def
      dict_getitem_def iso_1000 jsonify_def)
  done

lemma get_sensors_twice_neg:
  "get_sensors 2000 db_twice (Some 1) (Some (- 1)) =
     Inr (PList [PDict [(''temp'', PInt 21), (''timestamp'', PStr ''1970-01-01T00:00:01'')]])"
  apply (simp add: get_sensors_def args_get_def since_of_small find_sorted_def sorted_twice)
  apply (simp add: db_twice_eq limit_cursor_def FIRST_BATCH_def dict_remove_def isoformat_timestamp_def
      dict_getitem_def iso_1000 jsonify_def)
  done

text \<open>
  Claim C1 as it is stated does not hold. Two readings stored within the same millisecond
  are both returned for \<^verbatim>\<open>limit=0\<close>, two records where at most zero are promised; for
  \<^verbatim>\<open>limit=-1\<close> one record is returned where at most minus one is promised; and for
  \<^verbatim>\<open>limit=5\<close> the two records returned carry the same timestamp, so the list is not
  strictly newest first.
\<close>

theorem get_sensors_limit_strict_counterexample:
  "length (response_records (get_sensors 2000 db_twice (Some 1) (Some 0))) = 2
   \<and> length (response_records (get_sensors 2000 db_twice (Some 1) (Some (- 1)))) = 1
   \<and> map timestamp_field (response_records (get_sensors 2000 db_twice (Some 1) (Some 5)))
       = [Some (PStr ''1970-01-01T00:00:01''), Some (PStr ''1970-01-01T00:00:01'')]"
  by (simp add: get_sensors_twice_0 get_sensors_twice_5 get_sensors_twice_neg response_records_def)

lemma isoformat_timestamp_Inr:
  "isoformat_timestamp d = Inr r \<Longrightarrow>
   \<exists>t. timestamp_of d = Some t \<and> r = dict_setitem ''timestamp'' (PStr (isoformat t)) d"
  by (auto simp: isoformat_timestamp_def dict_getitem_def timestamp_of_def
      split: option.splits pyval.splits)

lemma isoformat_each_Inr:
  "isoformat_each ds = Inr rs \<Longrightarrow>
   \<exists>ts. map timestamp_of ds = map Some ts
      \<and> rs = map2 (\<lambda>d t. dict_setitem ''timestamp'' (PStr (isoformat t)) d) ds ts"
proof (induction ds arbitrary: rs)
  case Nil
  then show ?case by simp
next
  case (Cons d ds)
  from Cons.prems obtain r rs' where r: "isoformat_timestamp d = Inr r"
    and rs': "isoformat_each ds = Inr rs'" and rs: "rs = r # rs'"
    by (auto split: sum.splits)
  obtain t where t: "timestamp_of d = Some t" "r = dict_setitem ''timestamp'' (PStr (isoformat t)) d"
    using isoformat_timestamp_Inr [OF r] by blast
  obtain ts where ts: "map timestamp_of ds = map Some ts"
    "rs' = map2 (\<lambda>d t. dict_setitem ''timestamp'' (PStr (isoformat t)) d) ds ts"
    using Cons.IH [OF rs'] by blast
  have "map timestamp_of (d # ds) = map Some (t # ts)
      \<and> rs = map2 (\<lambda>d t. dict_setitem ''timestamp'' (PStr (isoformat t)) d) (d # ds) (t # ts)"
    using t ts rs by simp
  then show ?case by blast
qed

lemma timestamp_of_remove_id: "timestamp_of (dict_remove ''_id'' d) = timestamp_of d"
  by (simp add: timestamp_of_def map_of_remove)

lemma limit_cursor_take:
  "limit_cursor n xs = Inr ys \<Longrightarrow> \<exists>k. ys = take k xs \<and> (n \<noteq> 0 \<longrightarrow> int k \<le> \<bar>n\<bar>)"
proof (cases "n = 0")
  case True
  assume "limit_cursor n xs = Inr ys"
  then have "ys = take (length xs) xs"
    using True by (simp add: limit_cursor_def)
  then show ?thesis using True by blast
next
  case False
  assume "limit_cursor n xs = Inr ys"
  then have "ys = take (nat n) xs \<and> 0 < n \<or> ys = take (min (nat (- n)) FIRST_BATCH) xs \<and> n < 0"
    using False by (auto simp: limit_cursor_def split: if_splits)
  then show ?thesis
  proof
    assume "ys = take (nat n) xs \<and> 0 < n"
    then have "ys = take (nat n) xs \<and> (n \<noteq> 0 \<longrightarrow> int (nat n) \<le> \<bar>n\<bar>)" by simp
    then show ?thesis by blast
  next
    assume "ys = take (min (nat (- n)) FIRST_BATCH) xs \<and> n < 0"
    then have "ys = take (min (nat (- n)) FIRST_BATCH) xs
       \<and> (n \<noteq> 0 \<longrightarrow> int (min (nat (- n)) FIRST_BATCH) \<le> \<bar>n\<bar>)" by (auto simp: min_def)
    then show ?thesis by blast
  qed
qed

lemma since_of_Inr: "since_of now h = Inr since \<Longrightarrow> since = now - h * 3600000"
  by (auto simp: since_of_def timedelta_hours_def datetime_sub_def split: if_splits sum.splits)

lemma sorted_by_date_key:
  assumes "sorted_wrt (newer_first f) ys" and "map (date_key f) ys = map Some ts"
  shows "sorted_wrt (\<lambda>a b. b \<le> a) ts"
proof -
  let ?Q = "\<lambda>a b. case (a, b) of (Some a, Some b) \<Rightarrow> (b :: int) \<le> a | _ \<Rightarrow> False"
  have "newer_first f = (\<lambda>x y. ?Q (date_key f x) (date_key f y))"
    by (intro ext) (simp add: newer_first_def)
  then have "sorted_wrt ?Q (map (date_key f) ys)"
    using assms(1) by (simp add: sorted_wrt_map)
  then have "sorted_wrt ?Q (map Some ts)"
    by (simp add: assms(2))
  then show ?thesis
    by (simp add: sorted_wrt_map)
qed

text \<open>
  Claim C1, amended. Whenever \<^verbatim>\<open>GET /api/sensors?hours=H&limit=L\<close> answers with a list,
  the list renders stored sensor readings whose timestamps are all at or after
  \<open>now - H\<close> hours and never increase along the list (equal timestamps may follow each
  other), and for \<open>L \<noteq> 0\<close> it has at most \<open>\<bar>L\<bar>\<close> records.
\<close>

theorem get_sensors_window_order_limit:
  assumes "get_sensors now s (Some H) (Some L) = Inr v"
  shows "\<exists>rs ts. v = PList (map PDict (map2 rendered rs ts))
          \<and> set rs \<subseteq> set (sensor_readings s)
          \<and> map timestamp_of rs = map Some ts
          \<and> (\<forall>t\<in>set ts. now - H * 3600000 \<le> t)
          \<and> sorted_wrt (\<lambda>a b. b \<le> a) ts
          \<and> (L \<noteq> 0 \<longrightarrow> int (length rs) \<le> \<bar>L\<bar>)"
proof -
  let ?f = "''timestamp''"
  obtain since where since: "since_of now H = Inr since"
    using assms by (auto simp: get_sensors_def args_get_def split: sum.splits)
  let ?w = "filter (matches (Timestamp_gte since)) (sensor_readings s)"
  obtain readings where readings: "find_sorted (sensor_readings s) (Timestamp_gte since) L = Inr readings"
    using assms since by (auto simp: get_sensors_def args_get_def split: sum.splits)
  obtain out where out: "isoformat_each readings = Inr out"
    and v: "jsonify (PList (map PDict out)) = Inr v"
    using assms since readings by (auto simp: get_sensors_def args_get_def split: sum.splits)
  have v': "v = PList (map PDict out)"
    using v by (simp add: jsonify_def split: if_splits)
  obtain ys where ys: "limit_cursor L (sort_desc ?f ?w) = Inr ys"
    and rd: "readings = map (dict_remove ''_id'') ys"
    using readings by (auto simp: find_sorted_def split: sum.splits)
  obtain k where k: "ys = take k (sort_desc ?f ?w)" and kL: "L \<noteq> 0 \<longrightarrow> int k \<le> \<bar>L\<bar>"
    using limit_cursor_take [OF ys] by blast
  obtain ts where ts: "map timestamp_of readings = map Some ts"
    and outeq: "out = map2 (\<lambda>d t. dict_setitem ''timestamp'' (PStr (isoformat t)) d) readings ts"
    using isoformat_each_Inr [OF out] by blast
  have ts_ys: "map timestamp_of ys = map Some ts"
    using ts by (simp add: rd timestamp_of_remove_id comp_def)
  have len: "length ys = length ts"
    using arg_cong [OF ts_ys, of length] by simp
  have sub: "set ys \<subseteq> set ?w"
    unfolding k using set_take_subset [of k "sort_desc ?f ?w"] by (simp add: set_sort_desc)
  have keys: "map (date_key ?f) ys = map Some ts"
  proof (rule nth_equalityI)
    show "length (map (date_key ?f) ys) = length (map Some ts)"
      using len by simp
  next
    fix i assume "i < length (map (date_key ?f) ys)"
    then have i: "i < length ys" by simp
    have "timestamp_of (ys ! i) = Some (ts ! i)"
      using arg_cong [OF ts_ys, of "\<lambda>l. l ! i"] i len by simp
    then show "map (date_key ?f) ys ! i = map Some ts ! i"
      using i len by (simp add: timestamp_of_date_key)
  qed
  have win: "\<forall>x\<in>set ?w. date_key ?f x \<noteq> None"
  proof
    fix x assume "x \<in> set ?w"
    then have "field_gte ?f since x" by simp
    then show "date_key ?f x \<noteq> None"
      using field_gte_date_key [of ?f since x] by auto
  qed
  have "sorted_wrt (newer_first ?f) (sort_desc ?f ?w)"
    using win by (rule sorted_sort_desc)
  then have "sorted_wrt (newer_first ?f) ys"
    unfolding k by (rule sorted_wrt_take)
  then have sorted: "sorted_wrt (\<lambda>a b. b \<le> a) ts"
    using keys by (rule sorted_by_date_key)
  have bound: "since \<le> t" if tin: "t \<in> set ts" for t
  proof -
    obtain i where i: "i < length ts" "ts ! i = t"
      using tin by (auto simp: in_set_conv_nth)
    have "ys ! i \<in> set ys"
      using i len by simp
    then have y: "ys ! i \<in> set ?w"
      using sub by blast
    then have "field_gte ?f since (ys ! i)"
      by simp
    then obtain t' where t': "date_key ?f (ys ! i) = Some t'" "since \<le> t'"
      using field_gte_date_key [of ?f since "ys ! i"] by blast
    have "date_key ?f (ys ! i) = Some t"
      using arg_cong [OF keys, of "\<lambda>l. l ! i"] i len by simp
    then show ?thesis using t' by simp
  qed
  have render: "out = map2 rendered ys ts"
    unfolding outeq rd
    by (rule nth_equalityI) (simp_all add: len rendered_def)
  have sub': "set ys \<subseteq> set (sensor_readings s)"
    using sub by auto
  have since_eq: "since = now - H * 3600000"
    using since by (rule since_of_Inr)
  have bound': "\<forall>t\<in>set ts. now - H * 3600000 \<le> t"
    using bound unfolding since_eq by blast
  have "length ys \<le> k"
    unfolding k by simp
  then have lim: "L \<noteq> 0 \<longrightarrow> int (length ys) \<le> \<bar>L\<bar>"
    using kL by linarith
  have resp: "v = PList (map PDict (map2 rendered ys ts))"
    unfolding v' render ..
  show ?thesis
    by (intro exI [of _ ys] exI [of _ ts] conjI resp sub' ts_ys bound' sorted lim)
qed

theorem get_sensors_window_order_limit_witness:
  "get_sensors 2000 db_twice (Some 1) (Some 5) =
     Inr (PList [PDict [(''temp'', PInt 21), (''timestamp'', PStr ''1970-01-01T00:00:01'')],
                 PDict [(''temp'', PInt 21), (''timestamp'', PStr ''1970-01-01T00:00:01'')]])
   \<and> (\<exists>rs ts. PList [PDict [(''temp'', PInt 21), (''timestamp'', PStr ''1970-01-01T00:00:01'')],
                       PDict [(''temp'', PInt 21), (''timestamp'', PStr ''1970-01-01T00:00:01'')]]
                = PList (map PDict (map2 rendered rs ts))
          \<and> set rs \<subseteq> set (sensor_readings db_twice)
          \<and> map timestamp_of rs = map Some ts
          \<and> (\<forall>t\<in>set ts. 2000 - 1 * 3600000 \<le> t)
          \<and> sorted_wrt (\<lambda>a b. b \<le> a) ts
          \<and> ((5::int) \<noteq> 0 \<longrightarrow> int (length rs) \<le> \<bar>5\<bar>))"
  using get_sensors_twice_5 get_sensors_window_order_limit [OF get_sensors_twice_5]
  by blast

lemma mset_insert_desc: "mset (insert_desc f x ys) = add_mset x (mset ys)"
  by (induction ys) auto

lemma mset_sort_desc: "mset (sort_desc f xs) = mset xs"
  by (induction xs) (auto simp: mset_insert_desc)

text \<open>What a list query has read when the conversion of its records went through.\<close>

lemma find_sorted_rendered:
  assumes "find_sorted coll flt n = Inr readings" and "isoformat_each readings = Inr out"
  shows "\<exists>ys ts. limit_cursor n (sort_desc ''timestamp'' (filter (matches flt) coll)) = Inr ys
           \<and> map timestamp_of ys = map Some ts \<and> out = map2 rendered ys ts"
proof -
  obtain ys where ys: "limit_cursor n (sort_desc ''timestamp'' (filter (matches flt) coll)) = Inr ys"
    and rd: "readings = map (dict_remove ''_id'') ys"
    using assms(1) by (auto simp: find_sorted_def split: sum.splits)
  obtain ts where ts: "map timestamp_of readings = map Some ts"
    and outeq: "out = map2 (\<lambda>d t. dict_setitem ''timestamp'' (PStr (isoformat t)) d) readings ts"
    using isoformat_each_Inr [OF assms(2)] by blast
  have ts_ys: "map timestamp_of ys = map Some ts"
    using ts by (simp add: rd timestamp_of_remove_id comp_def)
  have len: "length ys = length ts"
    using arg_cong [OF ts_ys, of length] by simp
  have "out = map2 rendered ys ts"
    unfolding outeq rd
    by (rule nth_equalityI) (simp_all add: len rendered_def)
  then show ?thesis
    using ys ts_ys by blast
qed

lemma get_sensors_Inr:
  assumes "get_sensors now s hours_arg limit_arg = Inr v"
  shows "\<exists>readings out.
           find_sorted (sensor_readings s)
             (Timestamp_gte (now - args_get hours_arg 24 * 3600000)) (args_get limit_arg 100)
             = Inr readings
         \<and> isoformat_each readings = Inr out \<and> v = PList (map PDict out)"
proof -
  obtain since where since: "since_of now (args_get hours_arg 24) = Inr since"
    using assms by (auto simp: get_sensors_def Let_def split: sum.splits)
  have eq: "since = now - args_get hours_arg 24 * 3600000"
    using since by (rule since_of_Inr)
  obtain readings where readings:
    "find_sorted (sensor_readings s) (Timestamp_gte since) (args_get limit_arg 100) = Inr readings"
    using assms since by (auto simp: get_sensors_def Let_def split: sum.splits)
  obtain out where out: "isoformat_each readings = Inr out"
    and v: "jsonify (PList (map PDict out)) = Inr v"
    using assms since readings by (auto simp: get_sensors_def Let_def split: sum.splits)
  have "v = PList (map PDict out)"
    using v by (simp add: jsonify_def split: if_splits)
  then show ?thesis
    using readings out unfolding eq by blast
qed

lemma get_alerts_Inr:
  assumes "get_alerts now s hours_arg limit_arg = Inr v"
  shows "\<exists>alert_list out.
           find_sorted (alerts s)
             (Timestamp_gte (now - args_get hours_arg 24 * 3600000)) (args_get limit_arg 50)
             = Inr alert_list
         \<and> isoformat_each alert_list = Inr out \<and> v = PList (map PDict out)"
proof -
  obtain since where since: "since_of now (args_get hours_arg 24) = Inr since"
    using assms by (auto simp: get_alerts_def Let_def split: sum.splits)
  have eq: "since = now - args_get hours_arg 24 * 3600000"
    using since by (rule since_of_Inr)
  obtain alert_list where alert_list:
    "find_sorted (alerts s) (Timestamp_gte since) (args_get limit_arg 50) = Inr alert_list"
    using assms since by (auto simp: get_alerts_def Let_def split: sum.splits)
  obtain out where out: "isoformat_each alert_list = Inr out"
    and v: "jsonify (PList (map PDict out)) = Inr v"
    using assms since alert_list by (auto simp: get_alerts_def Let_def split: sum.splits)
  have "v = PList (map PDict out)"
    using v by (simp add: jsonify_def split: if_splits)
  then show ?thesis
    using alert_list out unfolding eq by blast
qed

lemma unlimited_rendered:
  assumes "find_sorted coll flt 0 = Inr readings" and "isoformat_each readings = Inr out"
  shows "\<exists>rs ts. out = map2 rendered rs ts \<and> map timestamp_of rs = map Some ts
           \<and> mset rs = mset (filter (matches flt) coll)"
proof -
  obtain ys ts where ys: "limit_cursor 0 (sort_desc ''timestamp'' (filter (matches flt) coll)) = Inr ys"
    and ts: "map timestamp_of ys = map Some ts" and out: "out = map2 rendered ys ts"
    using find_sorted_rendered [OF assms] by blast
  have "ys = sort_desc ''timestamp'' (filter (matches flt) coll)"
    using ys by (simp add: limit_cursor_def)
  then have "mset ys = mset (filter (matches flt) coll)"
    by (simp add: mset_sort_desc)
  then show ?thesis
    using ts out by blast
qed

lemma db_alert_eq:
  "db_alert =
     \<lparr>sensor_readings = [], status_logs = [],
      alerts = [[(''_id'', PObjectId 0), (''type'', PStr ''fire''),
                 (''message'', PStr ''smoke detected''), (''timestamp'', PDatetime 1000)]],
      next_oid = 1\<rparr>"
  by (simp add: db_alert_def delivered_def on_message_def on_message_try_def msg_alert_def
      insert_one_def with_id_def TOPIC_SENSORS_def TOPIC_STATUS_def TOPIC_ALERT_def empty_db_def Let_def)

lemma get_alerts_alert_0:
  "get_alerts 2000 db_alert (Some 1) (Some 0) =
     Inr (PList [PDict [(''type'', PStr ''fire''), (''message'', PStr ''smoke detected''),
                        (''timestamp'', PStr ''1970-01-01T00:00:01'')]])"
  apply (simp add: get_alerts_def args_get_def since_of_small find_sorted_def)
  apply (simp add: db_alert_eq limit_cursor_def dict_remove_def isoformat_timestamp_def
      dict_getitem_def iso_1000 jsonify_def field_gte_def)
  done

text \<open>
  Claim C9. With \<^verbatim>\<open>limit=0\<close> the list routes truncate nothing: a response of
  \<^verbatim>\<open>GET /api/sensors\<close> or \<^verbatim>\<open>GET /api/alerts\<close> renders every record of the collection
  whose timestamp is at or after the start of the window, each once; and there are stores
  for which the response then has more than \<open>0\<close> records.
\<close>

theorem limit_zero_disables_truncation:
  "(get_sensors now s hours_arg (Some 0) = Inr v \<longrightarrow>
      (\<exists>rs ts. v = PList (map PDict (map2 rendered rs ts))
         \<and> map timestamp_of rs = map Some ts
         \<and> mset rs = mset (filter (matches (Timestamp_gte (now - args_get hours_arg 24 * 3600000)))
                             (sensor_readings s))))
   \<and> (get_alerts now s hours_arg (Some 0) = Inr w \<longrightarrow>
      (\<exists>rs ts. w = PList (map PDict (map2 rendered rs ts))
         \<and> map timestamp_of rs = map Some ts
         \<and> mset rs = mset (filter (matches (Timestamp_gte (now - args_get hours_arg 24 * 3600000)))
                             (alerts s))))
   \<and> 0 < length (response_records (get_sensors 2000 db_twice (Some 1) (Some 0)))
   \<and> 0 < length (response_records (get_alerts 2000 db_alert (Some 1) (Some 0)))"
proof (intro conjI impI)
  assume "get_sensors now s hours_arg (Some 0) = Inr v"
  then obtain readings out where
    "find_sorted (sensor_readings s) (Timestamp_gte (now - args_get hours_arg 24 * 3600000)) 0
       = Inr readings"
    "isoformat_each readings = Inr out" "v = PList (map PDict out)"
    using get_sensors_Inr [of now s hours_arg "Some 0" v] by (auto simp: args_get_def)
  then show "\<exists>rs ts. v = PList (map PDict (map2 rendered rs ts))
         \<and> map timestamp_of rs = map Some ts
         \<and> mset rs = mset (filter (matches (Timestamp_gte (now - args_get hours_arg 24 * 3600000)))
                             (sensor_readings s))"
    using unlimited_rendered [of "sensor_readings s" _ readings out] by blast
next
  assume "get_alerts now s hours_arg (Some 0) = Inr w"
  then obtain alert_list out where
    "find_sorted (alerts s) (Timestamp_gte (now - args_get hours_arg 24 * 3600000)) 0
       = Inr alert_list"
    "isoformat_each alert_list = Inr out" "w = PList (map PDict out)"
    using get_alerts_Inr [of now s hours_arg "Some 0" w] by (auto simp: args_get_def)
  then show "\<exists>rs ts. w = PList (map PDict (map2 rendered rs ts))
         \<and> map timestamp_of rs = map Some ts
         \<and> mset rs = mset (filter (matches (Timestamp_gte (now - args_get hours_arg 24 * 3600000)))
                             (alerts s))"
    using unlimited_rendered [of "alerts s" _ alert_list out] by blast
next
  show "0 < length (response_records (get_sensors 2000 db_twice (Some 1) (Some 0)))"
    by (simp add: get_sensors_twice_0 response_records_def)
next
  show "0 < length (response_records (get_alerts 2000 db_alert (Some 1) (Some 0)))"
    by (simp add: get_alerts_alert_0 response_records_def)
qed

theorem limit_zero_disables_truncation_witness:
  "get_sensors 2000 db_twice (Some 1) (Some 0) =
     Inr (PList [PDict [(''temp'', PInt 21), (''timestamp'', PStr ''1970-01-01T00:00:01'')],
                 PDict [(''temp'', PInt 21), (''timestamp'', PStr ''1970-01-01T00:00:01'')]])
   \<and> (\<exists>rs ts. PList [PDict [(''temp'', PInt 21), (''timestamp'', PStr ''1970-01-01T00:00:01'')],
                       PDict [(''temp'', PInt 21), (''timestamp'', PStr ''1970-01-01T00:00:01'')]]
                = PList (map PDict (map2 rendered rs ts))
          \<and> map timestamp_of rs = map Some ts
          \<and> mset rs = mset (filter (matches (Timestamp_gte (2000 - args_get (Some 1) 24 * 3600000)))
                              (sensor_readings db_twice)))
   \<and> get_alerts 2000 db_alert (Some 1) (Some 0) =
     Inr (PList [PDict [(''type'', PStr ''fire''), (''message'', PStr ''smoke detected''),
                        (''timestamp'', PStr ''1970-01-01T00:00:01'')]])
   \<and> (\<exists>rs ts. PList [PDict [(''type'', PStr ''fire''), (''message'', PStr ''smoke detected''),
                        (''timestamp'', PStr ''1970-01-01T00:00:01'')]]
                = PList (map PDict (map2 rendered rs ts))
          \<and> map timestamp_of rs = map Some ts
          \<and> mset rs = mset (filter (matches (Timestamp_gte (2000 - args_get (Some 1) 24 * 3600000)))
                              (alerts db_alert)))"
  using get_sensors_twice_0 get_alerts_alert_0
    limit_zero_disables_truncation [of 2000 db_twice "Some 1" _ "PList []"]
    limit_zero_disables_truncation [of 2000 db_alert "Some 1" "PList []"]
  by blast

subsection \<open>The latest routes\<close>

lemma newer_first_refl: "date_key f x \<noteq> None \<Longrightarrow> newer_first f x x"
  by (auto simp: newer_first_def)

lemma sort_desc_head:
  assumes "sort_desc f xs = y # ys" and "\<forall>x\<in>set xs. date_key f x \<noteq> None"
  shows "y \<in> set xs \<and> (\<forall>x\<in>set xs. newer_first f y x)"
proof -
  have set_eq: "set xs = insert y (set ys)"
    using set_sort_desc [of f xs] assms(1) by simp
  have "sorted_wrt (newer_first f) (y # ys)"
    using sorted_sort_desc [OF assms(2)] assms(1) by simp
  then have "\<forall>z\<in>set ys. newer_first f y z"
    by simp
  moreover have "newer_first f y y"
    using assms(2) set_eq by (intro newer_first_refl) simp
  ultimately show ?thesis
    using set_eq by auto
qed

lemma list_all_setitem:
  "list_all P d \<Longrightarrow> P (k, v) \<Longrightarrow> list_all P (dict_setitem k v d)"
  by (induction d) auto

lemma list_all_fold_setitem:
  "list_all P acc \<Longrightarrow> (\<And>k v. (k, v) \<in> set ps \<Longrightarrow> P (k, g v)) \<Longrightarrow>
   list_all P (fold (\<lambda>(k, v) d. dict_setitem k (g v) d) ps acc)"
proof (induction ps arbitrary: acc)
  case Nil
  then show ?case by simp
next
  case (Cons p ps)
  obtain k v where p: "p = (k, v)" by (cases p)
  have "list_all P (dict_setitem k (g v) acc)"
    using Cons.prems p by (intro list_all_setitem) auto
  then show ?case
    using Cons.IH [of "dict_setitem k (g v) acc"] Cons.prems(2) p by simp
qed

lemma serializable_loads: "serializable (loads j)"
proof (induction j)
  case (JArr xs)
  then show ?case by (simp add: list_all_iff)
next
  case (JObj ps)
  have "list_all (\<lambda>p. serializable (snd p)) (fold (\<lambda>(k, v) d. dict_setitem k (loads v) d) ps [])"
  proof (rule list_all_fold_setitem)
    show "list_all (\<lambda>p. serializable (snd p)) []" by simp
  next
    fix k v assume "(k, v) \<in> set ps"
    then show "serializable (snd (k, loads v))"
      using JObj by (auto simp: snds.simps)
  qed
  then show ?case by simp
qed simp_all

lemma remove_id_with_id: "dict_remove ''_id'' (with_id n d) = dict_remove ''_id'' d"
  by (simp add: with_id_def dict_remove_def split: option.split)

lemma list_all_remove: "list_all P d \<Longrightarrow> list_all P (dict_remove k d)"
  by (simp add: dict_remove_def list_all_iff)

lemma record_ok_stamped:
  assumes "loads (JObj ps) = PDict d"
  shows "record_ok (with_id n (dict_setitem ''timestamp'' (PDatetime now) d))"
proof -
  have "serializable (PDict d)"
    using serializable_loads [of "JObj ps"] assms by simp
  then have "list_all (\<lambda>p. serializable (snd p)) d"
    by simp
  then have "list_all (\<lambda>p. serializable (snd p))
      (dict_remove ''_id'' (dict_setitem ''timestamp'' (PDatetime now) d))"
    by (intro list_all_remove list_all_setitem) simp_all
  then show ?thesis
    by (simp add: record_ok_def has_datetime_stamped remove_id_with_id)
qed


lemma on_message_keeps_record_ok:
  assumes "list_all record_ok (collection s c)"
  shows "list_all record_ok (collection (on_message now accepted s msg) c)"
proof (cases rule: on_message_cases [of now accepted s msg])
  case dropped
  then show ?thesis using assms by simp
next
  case (stored c' d ps)
  then show ?thesis
    using assms record_ok_stamped [OF stored(2)]
    by (cases c; cases c') (simp_all add: Let_def)
qed

lemma reachable_record_ok:
  "reachable s \<Longrightarrow> list_all record_ok (collection s c)"
proof (induction rule: reachable.induct)
  case start
  then show ?case by (cases c) (simp_all add: empty_db_def)
next
  case (step s now accepted msg)
  then show ?case by (simp add: on_message_keeps_record_ok)
qed

lemma record_ok_timestamp: "record_ok r \<Longrightarrow> \<exists>t. timestamp_of r = Some t"
  by (auto simp: record_ok_def has_datetime_def)

lemma remove_id_nonempty: "timestamp_of r = Some t \<Longrightarrow> dict_remove ''_id'' r \<noteq> []"
proof
  assume t: "timestamp_of r = Some t" and e: "dict_remove ''_id'' r = []"
  have "timestamp_of (dict_remove ''_id'' r) = Some t"
    using t by (simp add: timestamp_of_remove_id)
  then show False
    by (simp add: e timestamp_of_def)
qed

lemma jsonify_rendered:
  assumes "record_ok r"
  shows "jsonify (PDict (rendered r t)) = Inr (PDict (rendered r t))"
proof -
  have "list_all (\<lambda>p. serializable (snd p)) (dict_remove ''_id'' r)"
    using assms by (simp add: record_ok_def)
  then have "list_all (\<lambda>p. serializable (snd p)) (rendered r t)"
    unfolding rendered_def by (intro list_all_setitem) simp_all
  then show ?thesis
    by (simp add: jsonify_def)
qed

text \<open>The latest query on a collection of well-formed records.\<close>

lemma find_one_newest:
  assumes "list_all record_ok coll" and "coll \<noteq> []"
  shows "\<exists>r t. r \<in> set coll \<and> timestamp_of r = Some t
           \<and> (\<forall>r'\<in>set coll. \<forall>t'. timestamp_of r' = Some t' \<longrightarrow> t' \<le> t)
           \<and> find_one coll = Some (dict_remove ''_id'' r)"
proof -
  let ?f = "''timestamp''"
  have keys: "\<forall>x\<in>set coll. date_key ?f x \<noteq> None"
  proof
    fix x assume "x \<in> set coll"
    then have "record_ok x"
      using assms(1) by (simp add: list_all_iff)
    then obtain t where "timestamp_of x = Some t"
      using record_ok_timestamp by blast
    then show "date_key ?f x \<noteq> None"
      by (simp add: timestamp_of_date_key)
  qed
  have "sort_desc ?f coll \<noteq> []"
    using assms(2) length_sort_desc [of ?f coll] by (metis length_0_conv)
  then obtain y ys where sorted: "sort_desc ?f coll = y # ys"
    by (cases "sort_desc ?f coll") auto
  have y: "y \<in> set coll" and top: "\<forall>x\<in>set coll. newer_first ?f y x"
    using sort_desc_head [OF sorted keys] by auto
  have "record_ok y"
    using y assms(1) by (simp add: list_all_iff)
  then obtain t where t: "timestamp_of y = Some t"
    using record_ok_timestamp by blast
  have newest: "t' \<le> t" if r': "r' \<in> set coll" and t': "timestamp_of r' = Some t'" for r' t'
  proof -
    have "newer_first ?f y r'"
      using top r' by blast
    then show ?thesis
      by (simp add: newer_first_def timestamp_of_date_key [OF t] timestamp_of_date_key [OF t'])
  qed
  have "find_one coll = Some (dict_remove ''_id'' y)"
    by (simp add: find_one_def sorted)
  then show ?thesis
    using y t newest by blast
qed

text \<open>
  Claim C8. Let the records of \<^verbatim>\<open>sensor_readings\<close> and \<^verbatim>\<open>status_logs\<close> be as the data
  model has them, each stamped with an instant (the states the listener produces are such,
  by \<open>reachable_record_ok\<close>). Then \<^verbatim>\<open>GET /api/sensors/latest\<close> answers with the rendering
  of a sensor reading whose timestamp no other reading exceeds, and \<^verbatim>\<open>GET /api/status\<close>
  with that of such a status record; neither route takes \<^verbatim>\<open>hours\<close> or reads the clock,
  so no window restricts the answer. On an empty collection each answers with the empty
  object.
\<close>

theorem latest_routes_return_newest:
  assumes "list_all record_ok (sensor_readings s)" and "list_all record_ok (status_logs s)"
  shows "(sensor_readings s = [] \<longrightarrow> get_latest_sensor s = Inr (PDict []))
       \<and> (sensor_readings s \<noteq> [] \<longrightarrow>
            (\<exists>r t. r \<in> set (sensor_readings s) \<and> timestamp_of r = Some t
               \<and> (\<forall>r'\<in>set (sensor_readings s). \<forall>t'. timestamp_of r' = Some t' \<longrightarrow> t' \<le> t)
               \<and> get_latest_sensor s = Inr (PDict (rendered r t))))
       \<and> (status_logs s = [] \<longrightarrow> get_status s = Inr (PDict []))
       \<and> (status_logs s \<noteq> [] \<longrightarrow>
            (\<exists>r t. r \<in> set (status_logs s) \<and> timestamp_of r = Some t
               \<and> (\<forall>r'\<in>set (status_logs s). \<forall>t'. timestamp_of r' = Some t' \<longrightarrow> t' \<le> t)
               \<and> get_status s = Inr (PDict (rendered r t))))"
proof -
  have answer: "(case find_one coll of
        None \<Rightarrow> jsonify (PDict [])
      | Some reading \<Rightarrow>
          (if reading = [] then jsonify (PDict [])
           else (case isoformat_timestamp reading of
                   Inl e \<Rightarrow> Inl e
                 | Inr r \<Rightarrow> jsonify (PDict r)))) = Inr (PDict (rendered r t))"
    if r: "r \<in> set coll" and ok: "list_all record_ok coll" and t: "timestamp_of r = Some t"
      and one: "find_one coll = Some (dict_remove ''_id'' r)" for coll r t
  proof -
    have "record_ok r"
      using r ok by (simp add: list_all_iff)
    have "timestamp_of (dict_remove ''_id'' r) = Some t"
      using t by (simp add: timestamp_of_remove_id)
    then have "isoformat_timestamp (dict_remove ''_id'' r) = Inr (rendered r t)"
      by (auto simp: isoformat_timestamp_def dict_getitem_def timestamp_of_def rendered_def
          split: option.splits pyval.splits)
    then show ?thesis
      using remove_id_nonempty [OF t] jsonify_rendered [OF \<open>record_ok r\<close>, of t]
      by (simp add: one)
  qed
  have empty: "find_one [] = None"
    by (simp add: find_one_def)
  have e: "jsonify (PDict []) = Inr (PDict [])"
    by (simp add: jsonify_def)
  have 1: "sensor_readings s = [] \<longrightarrow> get_latest_sensor s = Inr (PDict [])"
    by (simp add: get_latest_sensor_def empty e)
  have 3: "status_logs s = [] \<longrightarrow> get_status s = Inr (PDict [])"
    by (simp add: get_status_def empty e)
  have 2: "\<exists>r t. r \<in> set (sensor_readings s) \<and> timestamp_of r = Some t
               \<and> (\<forall>r'\<in>set (sensor_readings s). \<forall>t'. timestamp_of r' = Some t' \<longrightarrow> t' \<le> t)
               \<and> get_latest_sensor s = Inr (PDict (rendered r t))"
    if ne: "sensor_readings s \<noteq> []"
  proof -
    obtain r t where rt: "r \<in> set (sensor_readings s)" "timestamp_of r = Some t"
      "\<forall>r'\<in>set (sensor_readings s). \<forall>t'. timestamp_of r' = Some t' \<longrightarrow> t' \<le> t"
      "find_one (sensor_readings s) = Some (dict_remove ''_id'' r)"
      using find_one_newest [OF assms(1) ne] by blast
    have "get_latest_sensor s = Inr (PDict (rendered r t))"
      unfolding get_latest_sensor_def by (rule answer [OF rt(1) assms(1) rt(2) rt(4)])
    then show ?thesis
      using rt by blast
  qed
  have 4: "\<exists>r t. r \<in> set (status_logs s) \<and> timestamp_of r = Some t
               \<and> (\<forall>r'\<in>set (status_logs s). \<forall>t'. timestamp_of r' = Some t' \<longrightarrow> t' \<le> t)
               \<and> get_status s = Inr (PDict (rendered r t))"
    if ne: "status_logs s \<noteq> []"
  proof -
    obtain r t where rt: "r \<in> set (status_logs s)" "timestamp_of r = Some t"
      "\<forall>r'\<in>set (status_logs s). \<forall>t'. timestamp_of r' = Some t' \<longrightarrow> t' \<le> t"
      "find_one (status_logs s) = Some (dict_remove ''_id'' r)"
      using find_one_newest [OF assms(2) ne] by blast
    have "get_status s = Inr (PDict (rendered r t))"
      unfolding get_status_def by (rule answer [OF rt(1) assms(2) rt(2) rt(4)])
    then show ?thesis
      using rt by blast
  qed
  show ?thesis
    using 1 2 3 4 by blast
qed

lemma db_latest_eq:
  "db_latest =
     \<lparr>sensor_readings =
        [[(''_id'', PObjectId 0), (''temp'', PInt 21), (''timestamp'', PDatetime 1000)],
         [(''_id'', PObjectId 1), (''temp'', PInt 21), (''timestamp'', PDatetime 3000)]],
      status_logs =
        [[(''_id'', PObjectId 2), (''door'', PStr ''open''), (''occupant_count'', PInt 2),
          (''timestamp'', PDatetime 2000)]],
      alerts = [], next_oid = 3\<rparr>"
  by (simp add: db_latest_def delivered_def on_message_def on_message_try_def msg_stamped_def
      msg_status_def insert_one_def with_id_def TOPIC_SENSORS_def TOPIC_STATUS_def empty_db_def
      Let_def eval_nat_numeral)

lemma iso_3000: "isoformat 3000 = ''1970-01-01T00:00:03''"
  by code_simp

lemma latest_sample:
  "get_latest_sensor db_latest =
     Inr (PDict [(''temp'', PInt 21), (''timestamp'', PStr ''1970-01-01T00:00:03'')])"
  by (simp add: get_latest_sensor_def find_one_def db_latest_eq sort_key_def cmp_def
      dict_remove_def isoformat_timestamp_def dict_getitem_def jsonify_def iso_3000)

theorem latest_routes_return_newest_witness:
  "list_all record_ok (sensor_readings db_latest) \<and> list_all record_ok (status_logs db_latest)
   \<and> sensor_readings db_latest \<noteq> []
   \<and> (\<exists>r t. r \<in> set (sensor_readings db_latest) \<and> timestamp_of r = Some t
          \<and> (\<forall>r'\<in>set (sensor_readings db_latest). \<forall>t'. timestamp_of r' = Some t' \<longrightarrow> t' \<le> t)
          \<and> get_latest_sensor db_latest = Inr (PDict (rendered r t)))
   \<and> get_latest_sensor db_latest =
       Inr (PDict [(''temp'', PInt 21), (''timestamp'', PStr ''1970-01-01T00:00:03'')])
   \<and> status_logs db_latest \<noteq> []
   \<and> (\<exists>r t. r \<in> set (status_logs db_latest) \<and> timestamp_of r = Some t
          \<and> (\<forall>r'\<in>set (status_logs db_latest). \<forall>t'. timestamp_of r' = Some t' \<longrightarrow> t' \<le> t)
          \<and> get_status db_latest = Inr (PDict (rendered r t)))
   \<and> list_all record_ok (sensor_readings empty_db) \<and> list_all record_ok (status_logs empty_db)
   \<and> sensor_readings empty_db = [] \<and> get_latest_sensor empty_db = Inr (PDict [])
   \<and> status_logs empty_db = [] \<and> get_status empty_db = Inr (PDict [])"
proof -
  have a: "list_all record_ok (sensor_readings db_latest)"
    by (simp add: db_latest_eq record_ok_def has_datetime_def timestamp_of_def dict_remove_def)
  have b: "list_all record_ok (status_logs db_latest)"
    by (simp add: db_latest_eq record_ok_def has_datetime_def timestamp_of_def dict_remove_def)
  have c: "sensor_readings db_latest \<noteq> []" "status_logs db_latest \<noteq> []"
    by (simp_all add: db_latest_eq)
  have d: "list_all record_ok (sensor_readings empty_db)" "list_all record_ok (status_logs empty_db)"
    "sensor_readings empty_db = []" "status_logs empty_db = []"
    by (simp_all add: empty_db_def)
  show ?thesis
    using a b c d latest_sample latest_routes_return_newest [OF a b]
      latest_routes_return_newest [OF d(1,2)]
    by blast
qed

subsection \<open>The list routes answer\<close>

lemma limit_cursor_Inr: "\<bar>n\<bar> < 2 ^ 63 \<Longrightarrow> \<exists>ys. limit_cursor n xs = Inr ys"
  by (simp add: limit_cursor_def)

lemma serializable_rendered: "record_ok r \<Longrightarrow> serializable (PDict (rendered r t))"
proof -
  assume "record_ok r"
  then have "list_all (\<lambda>p. serializable (snd p)) (dict_remove ''_id'' r)"
    by (simp add: record_ok_def)
  then have "list_all (\<lambda>p. serializable (snd p)) (rendered r t)"
    unfolding rendered_def by (intro list_all_setitem) simp_all
  then show ?thesis by simp
qed

lemma isoformat_projected:
  assumes "record_ok y"
  shows "\<exists>r. isoformat_timestamp (dict_remove ''_id'' y) = Inr r \<and> serializable (PDict r)"
proof -
  obtain t where t: "timestamp_of y = Some t"
    using assms record_ok_timestamp by blast
  then have "timestamp_of (dict_remove ''_id'' y) = Some t"
    by (simp add: timestamp_of_remove_id)
  then have "isoformat_timestamp (dict_remove ''_id'' y) = Inr (rendered y t)"
    by (auto simp: isoformat_timestamp_def dict_getitem_def timestamp_of_def rendered_def
        split: option.splits pyval.splits)
  then show ?thesis
    using serializable_rendered [OF assms] by blast
qed

lemma isoformat_each_projected:
  "list_all record_ok ys \<Longrightarrow>
   \<exists>out. isoformat_each (map (dict_remove ''_id'') ys) = Inr out
        \<and> list_all (\<lambda>r. serializable (PDict r)) out"
proof (induction ys)
  case Nil
  then show ?case by simp
next
  case (Cons y ys)
  obtain r where r: "isoformat_timestamp (dict_remove ''_id'' y) = Inr r" "serializable (PDict r)"
    using Cons.prems isoformat_projected [of y] by auto
  obtain out where out: "isoformat_each (map (dict_remove ''_id'') ys) = Inr out"
    "list_all (\<lambda>r. serializable (PDict r)) out"
    using Cons by auto
  have "isoformat_each (map (dict_remove ''_id'') (y # ys)) = Inr (r # out)
      \<and> list_all (\<lambda>r. serializable (PDict r)) (r # out)"
    using r out by simp
  then show ?case by blast
qed

text \<open>
  A list query answers on every collection of well-formed records, and so do the two list
  routes when the start of the window is a \<^verbatim>\<open>datetime\<close> and the limit fits in 64 bits.
\<close>

lemma list_query_answers:
  assumes "list_all record_ok coll" and "\<bar>n\<bar> < 2 ^ 63"
  shows "\<exists>readings out. find_sorted coll flt n = Inr readings
           \<and> isoformat_each readings = Inr out
           \<and> jsonify (PList (map PDict out)) = Inr (PList (map PDict out))"
proof -
  obtain ys where ys: "limit_cursor n (sort_desc ''timestamp'' (filter (matches flt) coll)) = Inr ys"
    using limit_cursor_Inr [OF assms(2)] by blast
  have "set ys \<subseteq> set coll"
    using limit_cursor_subset [OF ys] by (auto simp: set_sort_desc)
  then have "list_all record_ok ys"
    using assms(1) by (auto simp: list_all_iff)
  then obtain out where out: "isoformat_each (map (dict_remove ''_id'') ys) = Inr out"
    "list_all (\<lambda>r. serializable (PDict r)) out"
    using isoformat_each_projected by blast
  have "serializable (PList (map PDict out))"
    using out(2) by (simp add: list_all_iff)
  then have "jsonify (PList (map PDict out)) = Inr (PList (map PDict out))"
    by (simp add: jsonify_def)
  moreover have "find_sorted coll flt n = Inr (map (dict_remove ''_id'') ys)"
    by (simp add: find_sorted_def ys)
  ultimately show ?thesis
    using out(1) by blast
qed

lemma get_sensors_answers:
  assumes "list_all record_ok (sensor_readings s)"
    and "since_of now (args_get hours_arg 24) = Inr since"
    and "\<bar>args_get limit_arg 100\<bar> < 2 ^ 63"
  shows "\<exists>v. get_sensors now s hours_arg limit_arg = Inr v"
proof -
  obtain readings out where
    "find_sorted (sensor_readings s) (Timestamp_gte since) (args_get limit_arg 100) = Inr readings"
    "isoformat_each readings = Inr out"
    "jsonify (PList (map PDict out)) = Inr (PList (map PDict out))"
    using list_query_answers [OF assms(1,3)] by blast
  then show ?thesis
    by (simp add: get_sensors_def assms(2) Let_def)
qed

lemma get_alerts_answers:
  assumes "list_all record_ok (alerts s)"
    and "since_of now (args_get hours_arg 24) = Inr since"
    and "\<bar>args_get limit_arg 50\<bar> < 2 ^ 63"
  shows "\<exists>v. get_alerts now s hours_arg limit_arg = Inr v"
proof -
  obtain alert_list out where
    "find_sorted (alerts s) (Timestamp_gte since) (args_get limit_arg 50) = Inr alert_list"
    "isoformat_each alert_list = Inr out"
    "jsonify (PList (map PDict out)) = Inr (PList (map PDict out))"
    using list_query_answers [OF assms(1,3)] by blast
  then show ?thesis
    by (simp add: get_alerts_def assms(2) Let_def)
qed

subsection \<open>The aggregation pass\<close>

lemma fold_count:
  "fold (\<lambda>d n. if P d then Suc n else n) xs k = k + length (filter P xs)"
  by (induction xs arbitrary: k) auto

lemma count_documents_reference:
  "fst (count_documents s c flt) = reference_count flt (collection s c)"
  by (simp add: count_documents_def reference_count_def fold_count)

lemma fold_map_steps:
  "fold (\<lambda>d sts. map (acc_step d) sts) docs sts = map (\<lambda>st. fold acc_step docs st) sts"
  by (induction docs arbitrary: sts) (auto simp: comp_def)

lemma field_values_Cons:
  "field_values f (d # docs) =
     (case map_of d f of None \<Rightarrow> field_values f docs | Some v \<Rightarrow> v # field_values f docs)"
  by (simp add: field_values_def map_filter_simps split: option.split)

lemma field_values_Cons_None: "map_of d f = None \<Longrightarrow> field_values f (d # docs) = field_values f docs"
  by (simp add: field_values_Cons)

lemma field_values_Cons_Some:
  "map_of d f = Some v \<Longrightarrow> field_values f (d # docs) = v # field_values f docs"
  by (simp add: field_values_Cons)

lemma field_values_Nil: "field_values f [] = []"
  by (simp add: field_values_def map_filter_simps)

lemma avg_pass:
  "fold acc_step docs (Avg_state f sm n nan pinf ninf) =
     (let xs = List.map_filter number_of (field_values f docs)
      in Avg_state f (sm + sum_list (map finite_part xs)) (n + length xs)
           (nan \<or> NaN \<in> set xs) (pinf \<or> PosInf \<in> set xs) (ninf \<or> NegInf \<in> set xs))"
proof (induction docs arbitrary: sm n nan pinf ninf)
  case Nil
  then show ?case by (simp add: field_values_Nil map_filter_simps)
next
  case (Cons d docs)
  show ?case
  proof (cases "map_of d f")
    case None
    then show ?thesis
      by (simp add: Cons.IH field_values_Cons_None)
  next
    case (Some v)
    show ?thesis
    proof (cases v)
      case (PFloat x)
      then show ?thesis
        using Some
        by (cases x) (auto simp: Cons.IH field_values_Cons_Some [OF Some] map_filter_simps Let_def)
    qed (use Some in \<open>auto simp: Cons.IH field_values_Cons_Some [OF Some] map_filter_simps Let_def\<close>)
  qed
qed

lemma avg_pass_final:
  "acc_final (fold acc_step docs (acc_init (Avg f))) = reference_avg f docs"
  by (simp add: avg_pass reference_avg_def Let_def)

lemma max_pass:
  "fold acc_step docs (Max_state f m) =
     Max_state f
       (case m of
          None \<Rightarrow> (case filter (\<lambda>v. v \<noteq> PNone) (field_values f docs) of
                     [] \<Rightarrow> None
                   | v # vs \<Rightarrow> Some (fold bson_max vs v))
        | Some w \<Rightarrow> Some (fold bson_max (filter (\<lambda>v. v \<noteq> PNone) (field_values f docs)) w))"
proof (induction docs arbitrary: m)
  case Nil
  then show ?case by (simp add: field_values_Nil split: option.split)
next
  case (Cons d docs)
  show ?case
  proof (cases "map_of d f")
    case None
    then show ?thesis
      by (simp add: Cons.IH field_values_Cons_None cong: option.case_cong)
  next
    case (Some v)
    show ?thesis
    proof (cases "v = PNone")
      case True
      then show ?thesis
        using Some by (simp add: Cons.IH field_values_Cons_Some [OF Some] cong: option.case_cong)
    next
      case False
      then have step: "acc_step d (Max_state f m) =
          Max_state f (case m of None \<Rightarrow> Some v | Some w \<Rightarrow> Some (bson_max v w))"
        using Some by (cases v; cases m) simp_all
      have "fold acc_step (d # docs) (Max_state f m) =
          fold acc_step docs (Max_state f (case m of None \<Rightarrow> Some v | Some w \<Rightarrow> Some (bson_max v w)))"
        by (simp add: step del: acc_step.simps)
      then show ?thesis
        using False
        by (cases m) (simp_all add: Cons.IH field_values_Cons_Some [OF Some] del: acc_step.simps)
    qed
  qed
qed

lemma max_pass_final:
  "acc_final (fold acc_step docs (acc_init (Max f))) = reference_max f docs"
  by (simp add: max_pass reference_max_def split: list.split)

lemma group_reference:
  "group [(''avg_temp'', Avg ''temp''), (''max_temp'', Max ''temp''),
          (''avg_humidity'', Avg ''humidity'')] docs =
     (if docs = [] then []
      else [[(''_id'', PNone), (''avg_temp'', reference_avg ''temp'' docs),
             (''max_temp'', reference_max ''temp'' docs),
             (''avg_humidity'', reference_avg ''humidity'' docs)]])"
  using avg_pass_final [of docs "''temp''"] avg_pass_final [of docs "''humidity''"]
    max_pass_final [of docs "''temp''"]
  by (simp add: group_def fold_map_steps)

lemma aggregate_reference:
  "fst (aggregate s Sensor_readings (pipeline since)) =
     (let w = filter (matches (Timestamp_gte since)) (sensor_readings s)
      in if w = [] then []
         else [[(''_id'', PNone), (''avg_temp'', reference_avg ''temp'' w),
                (''max_temp'', reference_max ''temp'' w),
                (''avg_humidity'', reference_avg ''humidity'' w)]])"
  by (simp add: aggregate_def pipeline_def group_reference Let_def del: matches.simps)

lemma rounded_reference:
  assumes "agg = (if w = [] then []
         else [[(''_id'', PNone), (''avg_temp'', a), (''max_temp'', m), (''avg_humidity'', h)]])"
  shows "rounded agg ''avg_temp'' = round_unless_empty w a"
    and "rounded agg ''max_temp'' = round_unless_empty w m"
    and "rounded agg ''avg_humidity'' = round_unless_empty w h"
  by (simp_all add: assms rounded_def round_unless_empty_def dict_getitem_def)

lemma get_stats_calls:
  assumes "since_of now (args_get hours_arg 24) = Inr since"
  shows "snd (get_stats now s hours_arg) =
     [Count_documents Sensor_readings (Timestamp_gte since),
      Count_documents Alerts (Timestamp_gte since),
      Count_documents Alerts (Timestamp_gte_type since ''burglar''),
      Count_documents Alerts (Timestamp_gte_type since ''fire''),
      Aggregate Sensor_readings (pipeline since)]"
  by (simp add: get_stats_def assms Let_def count_documents_def aggregate_def
      split: sum.split prod.split)

lemma get_stats_reference:
  assumes "since_of now (args_get hours_arg 24) = Inr since"
  shows "fst (get_stats now s hours_arg) = reference_stats since s"
proof -
  let ?w = "filter (matches (Timestamp_gte since)) (sensor_readings s)"
  obtain agg c5 where agg: "aggregate s Sensor_readings (pipeline since) = (agg, c5)"
    by (cases "aggregate s Sensor_readings (pipeline since)")
  have agg_eq: "agg = (if ?w = [] then []
         else [[(''_id'', PNone), (''avg_temp'', reference_avg ''temp'' ?w),
                (''max_temp'', reference_max ''temp'' ?w),
                (''avg_humidity'', reference_avg ''humidity'' ?w)]])"
    using aggregate_reference [of s since] agg by (simp add: Let_def)
  have counts: "count_documents s c flt = (reference_count flt (collection s c), Count_documents c flt)"
    for c flt
    using count_documents_reference [of s c flt] by (simp add: count_documents_def)
  let ?calls = "[Count_documents Sensor_readings (Timestamp_gte since),
      Count_documents Alerts (Timestamp_gte since),
      Count_documents Alerts (Timestamp_gte_type since ''burglar''),
      Count_documents Alerts (Timestamp_gte_type since ''fire''), c5]"
  have "get_stats now s hours_arg =
     (case round_unless_empty ?w (reference_avg ''temp'' ?w) of
        Inl e \<Rightarrow> (Inl e, ?calls)
      | Inr a \<Rightarrow>
          (case round_unless_empty ?w (reference_max ''temp'' ?w) of
             Inl e \<Rightarrow> (Inl e, ?calls)
           | Inr m \<Rightarrow>
               (case round_unless_empty ?w (reference_avg ''humidity'' ?w) of
                  Inl e \<Rightarrow> (Inl e, ?calls)
                | Inr h \<Rightarrow>
                    (Inr \<lparr>total_readings = reference_count (Timestamp_gte since) (sensor_readings s),
                          total_alerts = reference_count (Timestamp_gte since) (alerts s),
                          burglar_alerts =
                            reference_count (Timestamp_gte_type since ''burglar'') (alerts s),
                          fire_alerts =
                            reference_count (Timestamp_gte_type since ''fire'') (alerts s),
                          avg_temp = a, max_temp = m, avg_humidity = h\<rparr>,
                     ?calls))))"
    by (simp add: get_stats_def Let_def assms agg counts rounded_reference [OF agg_eq]
        split: sum.split)
  then show ?thesis
    by (simp add: reference_stats_def Let_def split: sum.splits)
qed

text \<open>
  On a field that holds finite numbers only, the reference maximum is one of its values
  and no value is greater.
\<close>

lemma bson_cmp_numbers:
  "value_of v = Some a \<Longrightarrow> value_of w = Some b \<Longrightarrow> bson_cmp v w = cmp a b"
  by (cases v rule: value_of.cases; cases w rule: value_of.cases) (auto simp: cmp_def)

lemma bson_max_numbers:
  assumes "value_of v = Some a" and "value_of w = Some b"
  shows "value_of (bson_max v w) = Some (max a b) \<and> (bson_max v w = v \<or> bson_max v w = w)"
  using assms by (auto simp: bson_max_def bson_cmp_numbers [OF assms] cmp_def max_def split: if_splits)

lemma fold_bson_max_greatest:
  assumes "value_of v \<noteq> None" and "\<forall>w\<in>set vs. value_of w \<noteq> None"
  shows "\<exists>m. value_of (fold bson_max vs v) = Some m
           \<and> fold bson_max vs v \<in> set (v # vs)
           \<and> (\<forall>w\<in>set (v # vs). \<forall>b. value_of w = Some b \<longrightarrow> b \<le> m)"
  using assms
proof (induction vs arbitrary: v)
  case Nil
  then show ?case by auto
next
  case (Cons u vs)
  obtain a b where a: "value_of v = Some a" and b: "value_of u = Some b"
    using Cons.prems by auto
  have mx: "value_of (bson_max u v) = Some (max b a)" "bson_max u v = u \<or> bson_max u v = v"
    using bson_max_numbers [OF b a] by auto
  obtain m where m: "value_of (fold bson_max vs (bson_max u v)) = Some m"
    "fold bson_max vs (bson_max u v) \<in> set (bson_max u v # vs)"
    "\<forall>w\<in>set (bson_max u v # vs). \<forall>c. value_of w = Some c \<longrightarrow> c \<le> m"
    using Cons.IH [of "bson_max u v"] Cons.prems(2) mx(1) by auto
  have "max b a \<le> m"
    using m(3) mx(1) by simp
  then have "\<forall>w\<in>set (v # u # vs). \<forall>c. value_of w = Some c \<longrightarrow> c \<le> m"
    using m(3) a b by auto
  moreover have "fold bson_max (u # vs) v \<in> set (v # u # vs)"
    using m(2) mx(2) by auto
  ultimately show ?case
    using m(1) by auto
qed

lemma reference_max_greatest:
  assumes "\<forall>v\<in>set (field_values f docs). value_of v \<noteq> None" and "field_values f docs \<noteq> []"
  shows "\<exists>m. value_of (reference_max f docs) = Some m
           \<and> reference_max f docs \<in> set (field_values f docs)
           \<and> (\<forall>w\<in>set (field_values f docs). \<forall>b. value_of w = Some b \<longrightarrow> b \<le> m)"
proof -
  have "\<forall>v\<in>set (field_values f docs). v \<noteq> PNone"
    using assms(1) by auto
  then have same: "filter (\<lambda>v. v \<noteq> PNone) (field_values f docs) = field_values f docs"
    by (simp add: filter_id_conv)
  obtain v vs where vs: "field_values f docs = v # vs"
    using assms(2) by (cases "field_values f docs") auto
  have "reference_max f docs =
      (case field_values f docs of [] \<Rightarrow> PNone | v # vs \<Rightarrow> fold bson_max vs v)"
    unfolding reference_max_def same ..
  then have "reference_max f docs = fold bson_max vs v"
    by (simp add: vs)
  then show ?thesis
    using fold_bson_max_greatest [of v vs] assms(1) by (simp add: vs)
qed

subsection \<open>The statistics route on samples and in general\<close>

lemma double_21_35: "to_double (427 / 20) = Fin (3004745376386253 / 140737488355328)"
  by code_simp

text \<open>
  That number is the right one: a multiple of \<open>2^-48\<close> with a numerator of 53 bits, less
  than half a unit in the last place away from 21.35, and above it. The same holds of the
  \<^verbatim>\<open>float\<close> 21.4, which lies below 21.4.
\<close>

lemma nearest_21_35:
  "(3004745376386253 / 140737488355328 :: rat) = 6009490752772506 / 2 ^ 48
   \<and> (2 :: int) ^ 52 \<le> 6009490752772506 \<and> (6009490752772506 :: int) < 2 ^ 53
   \<and> (427 / 20 :: rat) < 6009490752772506 / 2 ^ 48
   \<and> (6009490752772506 / 2 ^ 48 - 427 / 20 :: rat) < 1 / 2 ^ 49"
  by simp

lemma nearest_21_4:
  "to_double (107 / 5) = Fin (6023564501608038 / 2 ^ 48)
   \<and> (2 :: int) ^ 52 \<le> 6023564501608038 \<and> (6023564501608038 :: int) < 2 ^ 53
   \<and> (6023564501608038 / 2 ^ 48 :: rat) < 107 / 5
   \<and> (107 / 5 - 6023564501608038 / 2 ^ 48 :: rat) < 1 / 2 ^ 49"
proof -
  have "to_double (107 / 5) = Fin (3011782250804019 / 140737488355328)"
    by code_simp
  then show ?thesis by simp
qed

lemma double_21_35_exact:
  "to_double (3004745376386253 / 140737488355328) = Fin (3004745376386253 / 140737488355328)"
  by code_simp

lemma round_21_35:
  "round_half_even (15023726881931265 / 70368744177664) = 214"
  by code_simp

lemma double_55: "to_double 55 = Fin 55"
  by code_simp

lemma round_55: "round_half_even 550 = 550"
  by code_simp

lemma py_round_21_35:
  "py_round (PFloat (to_double (427 / 20))) (Suc 0) = Inr (PFloat (to_double (107 / 5)))"
  by (simp add: double_21_35 round_21_35)

lemma db_reading_eq:
  "db_reading =
     \<lparr>sensor_readings =
        [[(''_id'', PObjectId 0), (''temp'', PFloat (to_double (427 / 20))),
          (''humidity'', PInt 55), (''timestamp'', PDatetime 1000)]],
      status_logs = [], alerts = [], next_oid = 1\<rparr>"
  by (simp add: db_reading_def delivered_def on_message_def on_message_try_def msg_reading_def
      insert_one_def with_id_def TOPIC_SENSORS_def empty_db_def Let_def)

lemma since_of_back: "since_of 500 24 = Inr (- 86399500)"
  by (simp add: since_of_def timedelta_hours_def datetime_sub_def MIN_DATETIME_def MAX_DATETIME_def)

lemma since_of_overflow: "since_of 500 1000000000 = Inl OverflowError"
  by (simp add: since_of_def timedelta_hours_def datetime_sub_def MIN_DATETIME_def MAX_DATETIME_def)

lemma since_of_late: "since_of 100000000 1 = Inr 96400000"
  by (simp add: since_of_def timedelta_hours_def datetime_sub_def MIN_DATETIME_def MAX_DATETIME_def)

lemma mean_one: "mean x (Suc 0) False False False = PFloat (to_double x)"
  by (simp add: mean_def)

lemma reference_stats_reading:
  assumes "since \<le> 1000"
  shows "reference_stats since db_reading =
     Inr \<lparr>total_readings = 1, total_alerts = 0, burglar_alerts = 0, fire_alerts = 0,
          avg_temp = PFloat (to_double (107 / 5)), max_temp = PFloat (to_double (107 / 5)),
          avg_humidity = PFloat (Fin 55)\<rparr>"
proof -
  let ?r = "[(''_id'', PObjectId 0), (''temp'', PFloat (to_double (427 / 20))),
          (''humidity'', PInt 55), (''timestamp'', PDatetime 1000)]"
  have w: "filter (matches (Timestamp_gte since)) (sensor_readings db_reading) = [?r]"
    using assms by (simp add: db_reading_eq field_gte_def)
  have a: "reference_avg ''temp'' [?r] = PFloat (to_double (427 / 20))"
    by (simp add: reference_avg_def field_values_def map_filter_simps double_21_35
        double_21_35_exact mean_one)
  have m: "reference_max ''temp'' [?r] = PFloat (to_double (427 / 20))"
    by (simp add: reference_max_def field_values_def map_filter_simps)
  have h: "reference_avg ''humidity'' [?r] = PFloat (Fin 55)"
    by (simp add: reference_avg_def field_values_def map_filter_simps mean_one double_55)
  show ?thesis
    unfolding reference_stats_def Let_def w a m h
    using assms
    by (simp add: round_unless_empty_def py_round_21_35 round_55 double_55 reference_count_def
        db_reading_eq field_gte_def)
qed

text \<open>For a record stamped with an instant the filter of the window compares that instant.\<close>

lemma matches_timestamp_of:
  "timestamp_of d = Some t \<Longrightarrow> matches (Timestamp_gte since) d = (since \<le> t)"
  by (auto simp: timestamp_of_def field_gte_def split: option.splits pyval.splits)

text \<open>
  Claim C2 as it is stated does not hold. A reading stamped half a second after the clock
  reading of the query lies outside the window from \<open>now - 24\<close> hours to \<open>now\<close>, and is
  counted and averaged all the same, since the queries bound the timestamp from below
  only. And on the empty store, \<^verbatim>\<open>hours=1000000000\<close> puts the start of the window before
  the year 1: the subtraction raises \<^verbatim>\<open>OverflowError\<close> and the route fails.
\<close>

theorem stats_window_counterexample:
  "filter (in_window (500 - 24 * 3600000) 500) (sensor_readings db_reading) = []
   \<and> fst (get_stats 500 db_reading (Some 24)) =
       Inr \<lparr>total_readings = 1, total_alerts = 0, burglar_alerts = 0, fire_alerts = 0,
            avg_temp = PFloat (to_double (107 / 5)), max_temp = PFloat (to_double (107 / 5)),
            avg_humidity = PFloat (Fin 55)\<rparr>
   \<and> filter (in_window (500 - 1000000000 * 3600000) 500) (sensor_readings empty_db) = []
   \<and> fst (get_stats 500 empty_db (Some 1000000000)) = Inl OverflowError"
proof (intro conjI)
  show "filter (in_window (500 - 24 * 3600000) 500) (sensor_readings db_reading) = []"
    by (simp add: db_reading_eq in_window_def timestamp_of_def)
  have "since_of 500 (args_get (Some 24) 24) = Inr (- 86399500)"
    by (simp add: args_get_def since_of_back)
  then show "fst (get_stats 500 db_reading (Some 24)) =
       Inr \<lparr>total_readings = 1, total_alerts = 0, burglar_alerts = 0, fire_alerts = 0,
            avg_temp = PFloat (to_double (107 / 5)), max_temp = PFloat (to_double (107 / 5)),
            avg_humidity = PFloat (Fin 55)\<rparr>"
    by (simp add: get_stats_reference reference_stats_reading)
  show "filter (in_window (500 - 1000000000 * 3600000) 500) (sensor_readings empty_db) = []"
    by (simp add: empty_db_def)
  show "fst (get_stats 500 empty_db (Some 1000000000)) = Inl OverflowError"
    by (simp add: get_stats_def args_get_def since_of_overflow)
qed

text \<open>
  Claim C2, amended. Whenever \<open>now - hours\<close> is a \<^verbatim>\<open>datetime\<close> and no sensor reading
  has a timestamp at or after it, \<^verbatim>\<open>GET /api/stats\<close> answers with \<^verbatim>\<open>avg_temp\<close>,
  \<^verbatim>\<open>max_temp\<close> and \<^verbatim>\<open>avg_humidity\<close> equal to the integer 0 and \<^verbatim>\<open>total_readings\<close> equal
  to 0.
\<close>

theorem stats_of_empty_window:
  assumes "since_of now (args_get hours_arg 24) = Inr since"
    and "filter (matches (Timestamp_gte since)) (sensor_readings s) = []"
  shows "\<exists>st. fst (get_stats now s hours_arg) = Inr st
          \<and> avg_temp st = PInt 0 \<and> max_temp st = PInt 0 \<and> avg_humidity st = PInt 0
          \<and> total_readings st = 0"
  by (simp add: get_stats_reference [OF assms(1)] reference_stats_def assms(2)
      round_unless_empty_def reference_count_def del: matches.simps)

theorem stats_of_empty_window_witness:
  "since_of 100000000 (args_get (Some 1) 24) = Inr 96400000
   \<and> filter (matches (Timestamp_gte 96400000)) (sensor_readings db_reading) = []
   \<and> (\<exists>st. fst (get_stats 100000000 db_reading (Some 1)) = Inr st
          \<and> avg_temp st = PInt 0 \<and> max_temp st = PInt 0 \<and> avg_humidity st = PInt 0
          \<and> total_readings st = 0)"
proof -
  have s: "since_of 100000000 (args_get (Some 1) 24) = Inr 96400000"
    by (simp add: args_get_def since_of_late)
  have w: "filter (matches (Timestamp_gte 96400000)) (sensor_readings db_reading) = []"
    by (simp add: db_reading_eq field_gte_def)
  show ?thesis
    using s w stats_of_empty_window [OF s w] by blast
qed

lemma mean_is_float: "n \<noteq> 0 \<Longrightarrow> \<exists>z. mean sm n a b c = PFloat z"
  by (simp add: mean_def)

lemma py_round_float: "\<exists>v. py_round (PFloat z) n = Inr v"
  by (cases z) simp_all

text \<open>
  The round trip of 21.35. Let the window hold a single sensor reading, whose \<^verbatim>\<open>temp\<close> is
  the \<^verbatim>\<open>float\<close> that the JSON number 21.35 decodes to and whose \<^verbatim>\<open>humidity\<close> is a
  number. Then \<^verbatim>\<open>GET /api/stats\<close> answers with \<^verbatim>\<open>avg_temp\<close> and \<^verbatim>\<open>max_temp\<close> both equal
  to the \<^verbatim>\<open>float\<close> 21.4: the binary64 number nearest to 21.35 lies above it, so rounding
  to one decimal goes up.
\<close>

lemma stats_round_trip_21_35:
  assumes "since_of now (args_get hours_arg 24) = Inr since"
    and "filter (matches (Timestamp_gte since)) (sensor_readings s) = [r]"
    and "map_of r ''temp'' = Some (PFloat (to_double (427 / 20)))"
    and "map_of r ''humidity'' = Some h" and "number_of h \<noteq> None"
  shows "\<exists>st. fst (get_stats now s hours_arg) = Inr st
          \<and> avg_temp st = PFloat (to_double (107 / 5))
          \<and> max_temp st = PFloat (to_double (107 / 5))
          \<and> total_readings st = 1"
proof -
  have a: "reference_avg ''temp'' [r] = PFloat (to_double (427 / 20))"
    using assms(3)
    by (simp add: reference_avg_def field_values_def map_filter_simps double_21_35
        double_21_35_exact mean_one)
  have m: "reference_max ''temp'' [r] = PFloat (to_double (427 / 20))"
    using assms(3) by (simp add: reference_max_def field_values_def map_filter_simps)
  obtain y where y: "number_of h = Some y"
    using assms(5) by blast
  have "\<exists>z. reference_avg ''humidity'' [r] = PFloat z"
    using assms(4) y by (simp add: reference_avg_def field_values_def map_filter_simps mean_is_float)
  then obtain z where z: "reference_avg ''humidity'' [r] = PFloat z"
    by blast
  obtain hv where hv: "py_round (PFloat z) (Suc 0) = Inr hv"
    using py_round_float by blast
  have n: "reference_count (Timestamp_gte since) (sensor_readings s) = 1"
    by (simp add: reference_count_def assms(2) del: matches.simps)
  show ?thesis
    unfolding get_stats_reference [OF assms(1)] reference_stats_def Let_def assms(2) a m z
    by (simp add: round_unless_empty_def py_round_21_35 hv n del: matches.simps)
qed

lemma stats_round_trip_21_35_sample:
  "since_of 2000 (args_get (Some 1) 24) = Inr (- 3598000)
   \<and> filter (matches (Timestamp_gte (- 3598000))) (sensor_readings db_reading)
       = [[(''_id'', PObjectId 0), (''temp'', PFloat (to_double (427 / 20))),
           (''humidity'', PInt 55), (''timestamp'', PDatetime 1000)]]
   \<and> number_of (PInt 55) \<noteq> None
   \<and> (\<exists>st. fst (get_stats 2000 db_reading (Some 1)) = Inr st
          \<and> avg_temp st = PFloat (to_double (107 / 5))
          \<and> max_temp st = PFloat (to_double (107 / 5))
          \<and> total_readings st = 1)"
proof -
  let ?r = "[(''_id'', PObjectId 0), (''temp'', PFloat (to_double (427 / 20))),
           (''humidity'', PInt 55), (''timestamp'', PDatetime 1000)]"
  have s: "since_of 2000 (args_get (Some 1) 24) = Inr (- 3598000)"
    by (simp add: args_get_def since_of_small)
  have w: "filter (matches (Timestamp_gte (- 3598000))) (sensor_readings db_reading) = [?r]"
    by (simp add: db_reading_eq field_gte_def)
  have t: "map_of ?r ''temp'' = Some (PFloat (to_double (427 / 20)))"
    by simp
  have h: "map_of ?r ''humidity'' = Some (PInt 55)"
    by simp
  have n: "number_of (PInt 55) \<noteq> None"
    by simp
  show ?thesis
    using s w n stats_round_trip_21_35 [OF s w t h n] by blast
qed

text \<open>
  Claim C7 as it is stated does not hold: \<^verbatim>\<open>get_stats\<close> reads the store five times. The
  four counts come from four \<^verbatim>\<open>count_documents\<close> calls, each a scan of its own; only the
  two averages and the maximum come out of the aggregation.
\<close>

theorem stats_reads_counterexample:
  "snd (get_stats 2000 db_scenario (Some 1)) =
     [Count_documents Sensor_readings (Timestamp_gte (- 3598000)),
      Count_documents Alerts (Timestamp_gte (- 3598000)),
      Count_documents Alerts (Timestamp_gte_type (- 3598000) ''burglar''),
      Count_documents Alerts (Timestamp_gte_type (- 3598000) ''fire''),
      Aggregate Sensor_readings (pipeline (- 3598000))]
   \<and> length (snd (get_stats 2000 db_scenario (Some 1))) = 5"
proof -
  have "since_of 2000 (args_get (Some 1) 24) = Inr (- 3598000)"
    by (simp add: args_get_def since_of_small)
  then show ?thesis
    by (simp add: get_stats_calls)
qed

text \<open>
  Claim C7, amended. For every store and every window whose start is a \<^verbatim>\<open>datetime\<close>,
  \<^verbatim>\<open>get_stats\<close> makes four \<^verbatim>\<open>count_documents\<close> calls and one \<^verbatim>\<open>aggregate\<close> call. The
  aggregation computes the average temperature, the maximum temperature and the average
  humidity in one pass over the sensor readings of the window, and its group holds the
  values of the per-field reference definitions; each count equals its reference
  definition; and the response is the one built from the reference definitions.
\<close>

theorem stats_pass_refines_reference:
  assumes "since_of now (args_get hours_arg 24) = Inr since"
  shows "snd (get_stats now s hours_arg) =
           [Count_documents Sensor_readings (Timestamp_gte since),
            Count_documents Alerts (Timestamp_gte since),
            Count_documents Alerts (Timestamp_gte_type since ''burglar''),
            Count_documents Alerts (Timestamp_gte_type since ''fire''),
            Aggregate Sensor_readings (pipeline since)]
       \<and> fst (aggregate s Sensor_readings (pipeline since)) =
           (let w = filter (matches (Timestamp_gte since)) (sensor_readings s)
            in if w = [] then []
               else [[(''_id'', PNone), (''avg_temp'', reference_avg ''temp'' w),
                      (''max_temp'', reference_max ''temp'' w),
                      (''avg_humidity'', reference_avg ''humidity'' w)]])
       \<and> fst (count_documents s Sensor_readings (Timestamp_gte since)) =
           reference_count (Timestamp_gte since) (sensor_readings s)
       \<and> fst (count_documents s Alerts (Timestamp_gte since)) =
           reference_count (Timestamp_gte since) (alerts s)
       \<and> fst (count_documents s Alerts (Timestamp_gte_type since ''burglar'')) =
           reference_count (Timestamp_gte_type since ''burglar'') (alerts s)
       \<and> fst (count_documents s Alerts (Timestamp_gte_type since ''fire'')) =
           reference_count (Timestamp_gte_type since ''fire'') (alerts s)
       \<and> fst (get_stats now s hours_arg) = reference_stats since s"
  using get_stats_calls [OF assms, of s] aggregate_reference [of s since]
    count_documents_reference [of s Sensor_readings "Timestamp_gte since"]
    count_documents_reference [of s Alerts "Timestamp_gte since"]
    count_documents_reference [of s Alerts "Timestamp_gte_type since ''burglar''"]
    count_documents_reference [of s Alerts "Timestamp_gte_type since ''fire''"]
    get_stats_reference [OF assms, of s]
  by simp

theorem stats_pass_refines_reference_witness:
  "since_of 2000 (args_get (Some 1) 24) = Inr (- 3598000)
   \<and> snd (get_stats 2000 db_reading (Some 1)) =
           [Count_documents Sensor_readings (Timestamp_gte (- 3598000)),
            Count_documents Alerts (Timestamp_gte (- 3598000)),
            Count_documents Alerts (Timestamp_gte_type (- 3598000) ''burglar''),
            Count_documents Alerts (Timestamp_gte_type (- 3598000) ''fire''),
            Aggregate Sensor_readings (pipeline (- 3598000))]
   \<and> fst (get_stats 2000 db_reading (Some 1)) = reference_stats (- 3598000) db_reading
   \<and> reference_stats (- 3598000) db_reading =
       Inr \<lparr>total_readings = 1, total_alerts = 0, burglar_alerts = 0, fire_alerts = 0,
            avg_temp = PFloat (to_double (107 / 5)), max_temp = PFloat (to_double (107 / 5)),
            avg_humidity = PFloat (Fin 55)\<rparr>"
proof -
  have s: "since_of 2000 (args_get (Some 1) 24) = Inr (- 3598000)"
    by (simp add: args_get_def since_of_small)
  have r: "reference_stats (- 3598000) db_reading =
       Inr \<lparr>total_readings = 1, total_alerts = 0, burglar_alerts = 0, fire_alerts = 0,
            avg_temp = PFloat (to_double (107 / 5)), max_temp = PFloat (to_double (107 / 5)),
            avg_humidity = PFloat (Fin 55)\<rparr>"
    by (rule reference_stats_reading) simp
  show ?thesis
    using s r stats_pass_refines_reference [OF s, of db_reading] by blast
qed

text \<open>The store after the single reading \<^verbatim>\<open>{"temp": 21.35}\<close>.\<close>

lemma db_temp_only_eq:
  "db_temp_only =
     \<lparr>sensor_readings =
        [[(''_id'', PObjectId 0), (''temp'', PFloat (to_double (427 / 20))),
          (''timestamp'', PDatetime 1000)]],
      status_logs = [], alerts = [], next_oid = 1\<rparr>"
  by (simp add: db_temp_only_def delivered_def on_message_def on_message_try_def msg_temp_only_def
      insert_one_def with_id_def TOPIC_SENSORS_def empty_db_def Let_def)

text \<open>
  Claim C6 does not hold of the code, through a case that \<^verbatim>\<open>get_stats\<close> misses. The
  listener stores the reading \<^verbatim>\<open>{"temp": 21.35}\<close> as it comes, with no humidity. Over a
  window that holds this reading alone the \<^verbatim>\<open>$avg\<close> of \<^verbatim>\<open>$humidity\<close> is null. The guard
  \<^verbatim>\<open>if agg_result else 0\<close> covers the window without readings only, so
  \<^verbatim>\<open>round(None, 1)\<close> raises \<^verbatim>\<open>TypeError\<close>, and the route fails where the claim has
  \<^verbatim>\<open>avg_temp\<close> and \<^verbatim>\<open>max_temp\<close> equal to 21.4. The same reading with a humidity of 55
  gets the answer of the claim, the binary64 number nearest to 21.4 in both fields.
\<close>

theorem stats_round_trip_raises:
  "db_temp_only
     = run_mqtt empty_db
         [\<lparr>message = \<lparr>topic = ''room/sensors'', payload = Some (JObj [(''temp'', JReal (427 / 20))])\<rparr>,
           utcnow = 1000, write_ok = True\<rparr>]
   \<and> sensor_readings db_temp_only
       = [[(''_id'', PObjectId 0), (''temp'', PFloat (Fin (6009490752772506 / 2 ^ 48))),
           (''timestamp'', PDatetime 1000)]]
   \<and> since_of 2000 (args_get (Some 1) 24) = Inr (- 3598000)
   \<and> filter (matches (Timestamp_gte (- 3598000))) (sensor_readings db_temp_only)
       = sensor_readings db_temp_only
   \<and> fst (get_stats 2000 db_temp_only (Some 1)) = Inl TypeError
   \<and> map_sum id avg_temp (fst (get_stats 2000 db_reading (Some 1)))
       = Inr (PFloat (Fin (6023564501608038 / 2 ^ 48)))
   \<and> map_sum id max_temp (fst (get_stats 2000 db_reading (Some 1)))
       = Inr (PFloat (Fin (6023564501608038 / 2 ^ 48)))"
proof -
  let ?r = "[(''_id'', PObjectId 0), (''temp'', PFloat (to_double (427 / 20))),
          (''timestamp'', PDatetime 1000)]"
  have d: "db_temp_only
     = run_mqtt empty_db
         [\<lparr>message = \<lparr>topic = ''room/sensors'', payload = Some (JObj [(''temp'', JReal (427 / 20))])\<rparr>,
           utcnow = 1000, write_ok = True\<rparr>]"
    by (simp only: db_temp_only_def delivered_def msg_temp_only_def)
  have c: "sensor_readings db_temp_only = [?r]"
    by (simp add: db_temp_only_eq)
  have v: "to_double (427 / 20) = Fin (6009490752772506 / 2 ^ 48)"
    by (simp add: double_21_35)
  have s: "since_of 2000 (args_get (Some 1) 24) = Inr (- 3598000)"
    by (simp add: args_get_def since_of_small)
  have w: "filter (matches (Timestamp_gte (- 3598000))) (sensor_readings db_temp_only) = [?r]"
    by (simp add: db_temp_only_eq field_gte_def)
  have a: "reference_avg ''temp'' [?r] = PFloat (to_double (427 / 20))"
    by (simp add: reference_avg_def field_values_def map_filter_simps double_21_35
        double_21_35_exact mean_one)
  have m: "reference_max ''temp'' [?r] = PFloat (to_double (427 / 20))"
    by (simp add: reference_max_def field_values_def map_filter_simps)
  have h: "reference_avg ''humidity'' [?r] = PNone"
    by (simp add: reference_avg_def field_values_def map_filter_simps mean_def)
  have g: "fst (get_stats 2000 db_temp_only (Some 1)) = Inl TypeError"
    unfolding get_stats_reference [OF s] reference_stats_def Let_def w a m h
    by (simp add: round_unless_empty_def py_round_21_35)
  have c': "sensor_readings db_temp_only
       = [[(''_id'', PObjectId 0), (''temp'', PFloat (Fin (6009490752772506 / 2 ^ 48))),
           (''timestamp'', PDatetime 1000)]]"
    using c unfolding v .
  have w': "filter (matches (Timestamp_gte (- 3598000))) (sensor_readings db_temp_only)
       = sensor_readings db_temp_only"
    using w c by simp
  have n: "to_double (107 / 5) = Fin (6023564501608038 / 2 ^ 48)"
    using nearest_21_4 by blast
  obtain st where st: "fst (get_stats 2000 db_reading (Some 1)) = Inr st"
      "avg_temp st = PFloat (to_double (107 / 5))" "max_temp st = PFloat (to_double (107 / 5))"
    using stats_round_trip_21_35_sample by blast
  have k: "map_sum id avg_temp (fst (get_stats 2000 db_reading (Some 1)))
             = Inr (PFloat (Fin (6023564501608038 / 2 ^ 48)))"
          "map_sum id max_temp (fst (get_stats 2000 db_reading (Some 1)))
             = Inr (PFloat (Fin (6023564501608038 / 2 ^ 48)))"
    unfolding st(1) by (simp_all only: map_sum.simps st(2,3) n)
  show ?thesis
    using d c' s w' g k by blast
qed

end
